theory Spec2Isabelle
  imports Complex_Main
begin

section \<open>Numeric model\<close>

text \<open>
  The program works on numpy arrays of 64-bit floats and 64-bit integers. Here a float is
  a real number and an integer is an unbounded \<open>int\<close>: rounding error, overflow, infinities
  and NaN are outside the model, except where a division by zero decides the control flow;
  there the branch is written out. A 3-vector is a triple and a 3x3 array is a triple of
  rows, so \<open>M[i, j]\<close> is component \<open>j\<close> of row \<open>i\<close>.
\<close>

type_synonym 'a vec3 = "'a \<times> 'a \<times> 'a"
type_synonym 'a mat3 = "'a vec3 \<times> 'a vec3 \<times> 'a vec3"

datatype error =
    IndexError
  | KeyError
  | EmptyMax
  | LinAlgError
  | GaussianNotReduced
  | BadCoords
  | AnglesDependent
  | AnglesAllTwoThirdsPi
  | BadCentering
  | SingularMatrix
  | TransformFailed
  | RowNotZeroed
  | LastNotZeroed
  | NotLowerTriangular
  | NegativeLower
  | LowerTooBig
  | IntOfNonFinite
  | LatticeDependent
  | RLatticeDependent
  | GridDependent
  | GridCellTooLarge
  | Incommensurate
  | WeightSumMismatch

fun vadd :: "'a::comm_ring_1 vec3 \<Rightarrow> 'a vec3 \<Rightarrow> 'a vec3" where
  "vadd (a, b, c) (x, y, z) = (a + x, b + y, c + z)"

fun vsub :: "'a::comm_ring_1 vec3 \<Rightarrow> 'a vec3 \<Rightarrow> 'a vec3" where
  "vsub (a, b, c) (x, y, z) = (a - x, b - y, c - z)"

fun smul :: "'a::comm_ring_1 \<Rightarrow> 'a vec3 \<Rightarrow> 'a vec3" where
  "smul k (x, y, z) = (k * x, k * y, k * z)"

fun dot :: "'a::comm_ring_1 vec3 \<Rightarrow> 'a vec3 \<Rightarrow> 'a" where
  "dot (a, b, c) (x, y, z) = a * x + b * y + c * z"

fun cross :: "'a::comm_ring_1 vec3 \<Rightarrow> 'a vec3 \<Rightarrow> 'a vec3" where
  "cross (a, b, c) (x, y, z) = (b * z - c * y, c * x - a * z, a * y - b * x)"

fun vmap :: "('a \<Rightarrow> 'b) \<Rightarrow> 'a vec3 \<Rightarrow> 'b vec3" where
  "vmap f (a, b, c) = (f a, f b, f c)"

fun vlist :: "'a vec3 \<Rightarrow> 'a list" where
  "vlist (a, b, c) = [a, b, c]"

text \<open>\<open>v[i]\<close> and \<open>v[i] = x\<close> for an index known to be 0, 1 or 2.\<close>

fun vget :: "'a vec3 \<Rightarrow> nat \<Rightarrow> 'a" where
  "vget (a, b, c) i = (if i = 0 then a else if i = 1 then b else c)"

fun vset :: "'a vec3 \<Rightarrow> nat \<Rightarrow> 'a \<Rightarrow> 'a vec3" where
  "vset (a, b, c) i x = (if i = 0 then (x, b, c) else if i = 1 then (a, x, c) else (a, b, x))"

fun transpose3 :: "'a mat3 \<Rightarrow> 'a mat3" where
  "transpose3 ((a, b, c), (d, e, f), (g, h, i)) = ((a, d, g), (b, e, h), (c, f, i))"

text \<open>\<open>np.dot(M, v)\<close> and \<open>np.dot(A, B)\<close>.\<close>

fun mat_vec :: "'a::comm_ring_1 mat3 \<Rightarrow> 'a vec3 \<Rightarrow> 'a vec3" where
  "mat_vec (r0, r1, r2) v = (dot r0 v, dot r1 v, dot r2 v)"

fun mat_mul :: "'a::comm_ring_1 mat3 \<Rightarrow> 'a mat3 \<Rightarrow> 'a mat3" where
  "mat_mul (r0, r1, r2) B =
     (mat_vec (transpose3 B) r0, mat_vec (transpose3 B) r1, mat_vec (transpose3 B) r2)"

fun det3 :: "'a::comm_ring_1 mat3 \<Rightarrow> 'a" where
  "det3 ((a, b, c), (d, e, f), (g, h, i)) =
     a * (e * i - f * h) - b * (d * i - f * g) + c * (d * h - e * g)"

fun adjugate :: "'a::comm_ring_1 mat3 \<Rightarrow> 'a mat3" where
  "adjugate ((a, b, c), (d, e, f), (g, h, i)) =
     ((e * i - f * h, c * h - b * i, b * f - c * e),
      (f * g - d * i, a * i - c * g, c * d - a * f),
      (d * h - e * g, b * g - a * h, a * e - b * d))"

definition identity3 :: "'a::comm_ring_1 mat3" where
  "identity3 = ((1, 0, 0), (0, 1, 0), (0, 0, 1))"

fun diag3 :: "'a::comm_ring_1 vec3 \<Rightarrow> 'a mat3" where
  "diag3 (a, b, c) = ((a, 0, 0), (0, b, 0), (0, 0, c))"

text \<open>
  \<open>numpy.linalg.inv\<close>: the inverse, or \<open>LinAlgError\<close> for a singular matrix (in the
  model: a zero determinant).
\<close>

definition inv3 :: "real mat3 \<Rightarrow> error + real mat3" where
  "inv3 M =
     (if det3 M = 0 then Inl LinAlgError
      else Inr (vmap (smul (1 / det3 M)) (adjugate M)))"

text \<open>\<open>numpy.isclose(a, b, rtol, atol)\<close> and \<open>numpy.allclose\<close> on vectors.\<close>

definition isclose :: "real \<Rightarrow> real \<Rightarrow> real \<Rightarrow> real \<Rightarrow> bool" where
  "isclose a b rtol atol \<longleftrightarrow> \<bar>a - b\<bar> \<le> atol + rtol * \<bar>b\<bar>"

fun allclose :: "real vec3 \<Rightarrow> real vec3 \<Rightarrow> real \<Rightarrow> real \<Rightarrow> bool" where
  "allclose (a, b, c) (x, y, z) rtol atol \<longleftrightarrow>
     isclose a x rtol atol \<and> isclose b y rtol atol \<and> isclose c z rtol atol"

text \<open>\<open>numpy.linalg.norm\<close> of a vector.\<close>

definition vnorm :: "real vec3 \<Rightarrow> real" where
  "vnorm v = sqrt (dot v v)"

text \<open>\<open>numpy.rint\<close>: the nearest integer, a tie going to the even neighbour.\<close>

definition rint :: "real \<Rightarrow> int" where
  "rint x =
     (let f = \<lfloor>x\<rfloor>; d = x - of_int f
      in if d < 1 / 2 then f else if 1 / 2 < d then f + 1 else if even f then f else f + 1)"

text \<open>
  \<open>numpy.argsort\<close> of a short array: indices in ascending order of the keys, equal keys
  keeping their order (numpy sorts arrays of fewer than 16 elements by insertion).
\<close>

definition argsort :: "real list \<Rightarrow> nat list" where
  "argsort xs = map snd (sort_key fst (zip xs [0..<length xs]))"

section \<open>Gaussian reduction of two vectors\<close>

text \<open>\<open>v1, v2 = vecs[np.argsort(norm(vecs, axis=1))]\<close> for \<open>vecs = [v1, v2]\<close>.\<close>

definition sort_pair :: "real vec3 \<Rightarrow> real vec3 \<Rightarrow> real vec3 \<times> real vec3" where
  "sort_pair v1 v2 =
     (let vecs = [v1, v2]; idx = argsort (map vnorm vecs)
      in (vecs ! (idx ! 0), vecs ! (idx ! 1)))"

text \<open>
  The \<open>while not reduced\<close> loop of \<open>gaussian_reduction\<close>, with the counter \<open>it\<close> as an
  argument; the counter reached is returned with the vectors. When \<open>v1\<close> is the zero
  vector the quotient is \<open>0/0\<close>, \<open>v2\<close> becomes NaN, every later comparison is false and the
  loop runs until the counter passes 10: the model raises at once.
\<close>

function gaussian_loop ::
  "nat \<Rightarrow> real vec3 \<Rightarrow> real vec3 \<Rightarrow> real \<Rightarrow> error + (nat \<times> real vec3 \<times> real vec3)" where
  "gaussian_loop it v1 v2 eps =
     (let it' = it + 1 in
      if 10 < it' then Inl GaussianNotReduced
      else if dot v1 v1 = 0 then Inl GaussianNotReduced
      else
        let v2' = vsub v2 (smul (of_int (rint (dot v1 v2 / dot v1 v1))) v1);
            reduced = (vnorm v1 - eps < vnorm v2');
            (a, b) = sort_pair v1 v2'
        in if reduced then Inr (it', a, b) else gaussian_loop it' a b eps)"
  by pat_completeness auto
termination
  by (relation "measure (\<lambda>(it, v1, v2, eps). 11 - it)") auto

declare gaussian_loop.simps [simp del]

definition gaussian_reduction ::
  "real vec3 \<Rightarrow> real vec3 \<Rightarrow> real \<Rightarrow> error + (real vec3 \<times> real vec3)" where
  "gaussian_reduction v1 v2 eps =
     (let (a, b) = sort_pair v1 v2
      in case gaussian_loop 0 a b eps of
           Inl e \<Rightarrow> Inl e
         | Inr (n, x, y) \<Rightarrow> Inr (x, y))"

section \<open>Folding points into the unit cell\<close>

text \<open>
  What \<open>bring_into_cell\<close> does to one lattice coordinate: \<open>% 1\<close>, then a value close to
  1 becomes 0; for a cell centred at the origin a value above 1/2 is moved down by 1 and
  a value close to 1/2 becomes -1/2.
\<close>

definition fold_coord :: "real \<Rightarrow> real \<Rightarrow> bool \<Rightarrow> real \<Rightarrow> real" where
  "fold_coord rtol atol centered x =
     (let y = frac x;
          y1 = (if isclose y 1 rtol atol then 0 else y)
      in if centered then
           (let y2 = (if 1 / 2 < y1 then y1 - 1 else y1)
            in if isclose y2 (1 / 2) rtol atol then - (1 / 2) else y2)
         else y1)"

text \<open>
  \<open>bring_into_cell\<close> for one point. The argument is always read as Cartesian; \<open>coords\<close>
  only selects the coordinates of the result, and an unknown value is reported after the
  folding.
\<close>

definition bring_into_cell ::
  "real vec3 \<Rightarrow> real mat3 \<Rightarrow> real \<Rightarrow> real \<Rightarrow> string \<Rightarrow> bool \<Rightarrow> error + real vec3" where
  "bring_into_cell point rlat_vecs rtol atol coords centered =
     (case inv3 rlat_vecs of
        Inl e \<Rightarrow> Inl e
      | Inr iv \<Rightarrow>
          let lat_point = vmap (fold_coord rtol atol centered) (mat_vec iv point)
          in if coords = ''Cart'' then Inr (mat_vec rlat_vecs lat_point)
             else if coords = ''lat'' then Inr lat_point
             else Inl BadCoords)"

text \<open>The same for a list of points (a 2-dimensional array).\<close>

definition bring_into_cell_list ::
  "real vec3 list \<Rightarrow> real mat3 \<Rightarrow> real \<Rightarrow> real \<Rightarrow> string \<Rightarrow> bool
     \<Rightarrow> error + real vec3 list" where
  "bring_into_cell_list points rlat_vecs rtol atol coords centered =
     (case inv3 rlat_vecs of
        Inl e \<Rightarrow> Inl e
      | Inr iv \<Rightarrow>
          let lat_points = map (\<lambda>p. vmap (fold_coord rtol atol centered) (mat_vec iv p)) points
          in if coords = ''Cart'' then Inr (map (mat_vec rlat_vecs) lat_points)
             else if coords = ''lat'' then Inr lat_points
             else Inl BadCoords)"

section \<open>Primitive translation vectors\<close>

text \<open>\<open>numpy.round(x, decimals)\<close> for a non-negative number of decimals.\<close>

definition round_to :: "real \<Rightarrow> nat \<Rightarrow> real" where
  "round_to x decimals = of_int (rint (x * 10 ^ decimals)) / 10 ^ decimals"

text \<open>\<open>numpy.isclose\<close> with its default tolerances.\<close>

definition isclose_default :: "real \<Rightarrow> real \<Rightarrow> bool" where
  "isclose_default a b = isclose a b (1 / 10 ^ 5) (1 / 10 ^ 8)"

text \<open>The rotation by \<open>gamma / 2\<close> applied to hexagonal and rhombohedral vectors.\<close>

definition rotate_half :: "real \<Rightarrow> real mat3" where
  "rotate_half gamma =
     ((cos (gamma / 2), sin (gamma / 2), 0),
      (- sin (gamma / 2), cos (gamma / 2), 0),
      (0, 0, 1))"

text \<open>
  The second half of \<open>make_ptvecs\<close>: the vectors of the conventional cell and the choice
  of primitive vectors by centering type. Where the source divides by \<open>sin gamma = 0\<close> or
  takes the root of a negative number it continues with infinities or NaN; the vectors of
  the model mean nothing there.
\<close>

definition build_ptvecs ::
  "string \<Rightarrow> real \<Rightarrow> real \<Rightarrow> real \<Rightarrow> real \<Rightarrow> real \<Rightarrow> real \<Rightarrow> error + real mat3" where
  "build_ptvecs center_type a b c alpha beta gamma =
     (let avec = (a, 0, 0);
          bvec = (b * cos gamma, b * sin gamma, 0);
          cy = c / sin gamma * (cos alpha - cos beta * cos gamma);
          cvec = (c * cos beta, cy,
                  sqrt (round_to (c\<^sup>2 - (c * cos beta)\<^sup>2 - cy\<^sup>2) 15))
      in if center_type = ''prim'' then
           if (isclose_default a b \<and> \<not> isclose_default b c) \<and>
              isclose_default alpha beta \<and> isclose_default beta (pi / 2) \<and>
              isclose_default gamma (2 * pi / 3)
           then Inr (transpose3 (mat_vec (rotate_half gamma) avec,
                                 mat_vec (rotate_half gamma) bvec,
                                 mat_vec (rotate_half gamma) cvec))
           else if isclose_default alpha beta \<and> isclose_default beta gamma \<and>
              \<not> isclose_default beta (pi / 2) \<and> isclose_default a b \<and>
              isclose_default b c
           then Inr (transpose3 (mat_vec (rotate_half gamma) avec,
                                 mat_vec (rotate_half gamma) bvec,
                                 mat_vec (rotate_half gamma) cvec))
           else Inr (transpose3 (avec, bvec, cvec))
         else if center_type = ''base'' then
           if alpha < pi / 2 \<and> isclose_default beta (pi / 2) \<and>
              isclose_default gamma (pi / 2) \<and> a \<le> c \<and> b \<le> c \<and>
              \<not> (isclose_default a b \<or> isclose_default b c \<or> isclose_default a c)
           then Inr (transpose3 (smul (1 / 2) (vadd avec bvec),
                                 smul (1 / 2) (vadd (smul (- 1) avec) bvec),
                                 cvec))
           else Inr (transpose3 (smul (1 / 2) (vsub avec bvec),
                                 smul (1 / 2) (vadd avec bvec),
                                 cvec))
         else if \<not> (c < a \<or> c < b) \<and> isclose_default beta gamma \<and>
                 isclose_default beta (pi / 2) \<and> alpha < pi / 2
         then Inr (transpose3 (smul (1 / 2) (vadd avec bvec),
                               smul (1 / 2) (vadd (smul (- 1) avec) bvec),
                               cvec))
         else if center_type = ''body'' then
           Inr (transpose3 (smul (1 / 2) (vadd (vadd (smul (- 1) avec) bvec) cvec),
                            smul (1 / 2) (vadd (vsub avec bvec) cvec),
                            smul (1 / 2) (vsub (vadd avec bvec) cvec)))
         else if center_type = ''face'' then
           Inr (transpose3 (smul (1 / 2) (vadd bvec cvec),
                            smul (1 / 2) (vadd avec cvec),
                            smul (1 / 2) (vadd avec bvec)))
         else Inl BadCentering)"

text \<open>
  \<open>make_ptvecs\<close>. The arguments are lists, so the two type checks at the top of the
  source cannot fail. The two linear-dependence errors are \<open>AnglesDependent\<close> (the sum of
  the two smallest angles is below, or close to, the largest) and \<open>AnglesAllTwoThirdsPi\<close>.
  \<open>max\<close> of an empty list and an index past the end raise in Python.
\<close>

definition make_ptvecs :: "string \<Rightarrow> real list \<Rightarrow> real list \<Rightarrow> error + real mat3" where
  "make_ptvecs center_type lat_consts lat_angles =
     (if lat_angles = [] then Inl EmptyMax
      else if sum_list (take 2 (sort lat_angles)) < Max (set lat_angles) \<or>
              isclose_default (sum_list (take 2 (sort lat_angles))) (Max (set lat_angles))
      then Inl AnglesDependent
      else case lat_angles of
        alpha # beta # gamma # _ \<Rightarrow>
          if isclose_default alpha beta \<and> isclose_default beta gamma \<and>
             isclose_default beta (2 * pi / 3)
          then Inl AnglesAllTwoThirdsPi
          else (case lat_consts of
            a # b # c # _ \<Rightarrow> build_ptvecs center_type a b c alpha beta gamma
          | _ \<Rightarrow> Inl IndexError)
      | _ \<Rightarrow> Inl IndexError)"

section \<open>Hermite normal form\<close>

text \<open>\<open>M[i, j]\<close>, and the column operations the routine performs in place.\<close>

definition entry :: "'a mat3 \<Rightarrow> nat \<Rightarrow> nat \<Rightarrow> 'a" where
  "entry M i j = vget (vget M i) j"

text \<open>\<open>M[:, mx] = M[:, mx] - k * M[:, mn]\<close>\<close>

definition col_sub :: "int mat3 \<Rightarrow> nat \<Rightarrow> nat \<Rightarrow> int \<Rightarrow> int mat3" where
  "col_sub M mx mn k = vmap (\<lambda>r. vset r mx (vget r mx - k * vget r mn)) M"

text \<open>Columns \<open>i\<close> and \<open>j\<close> exchanged through a temporary copy.\<close>

definition col_swap :: "int mat3 \<Rightarrow> nat \<Rightarrow> nat \<Rightarrow> int mat3" where
  "col_swap M i j = vmap (\<lambda>r. vset (vset r i (vget r j)) j (vget r i)) M"

text \<open>\<open>M[:, j] = -M[:, j]\<close>\<close>

definition col_neg :: "int mat3 \<Rightarrow> nat \<Rightarrow> int mat3" where
  "col_neg M j = vmap (\<lambda>r. vset r j (- vget r j)) M"

definition count_nonzero :: "int list \<Rightarrow> nat" where
  "count_nonzero xs = length (filter (\<lambda>x. x \<noteq> 0) xs)"

text \<open>
  \<open>numpy.argmax\<close>: the first index of the largest element. numpy raises on an empty
  array; every call below has a non-empty argument.
\<close>

fun argmax :: "int list \<Rightarrow> nat" where
  "argmax [] = 0"
| "argmax [x] = 0"
| "argmax (x # y # ys) = (let j = argmax (y # ys) in if x < (y # ys) ! j then Suc j else 0)"

text \<open>
  \<open>int(x / y)\<close> on two array integers: the float quotient cut towards zero. A zero
  divisor gives an infinity or NaN, which \<open>int\<close> refuses.
\<close>

definition tdiv :: "int \<Rightarrow> int \<Rightarrow> error + int" where
  "tdiv x y = (if y = 0 then Inl IntOfNonFinite else Inr (sgn x * sgn y * (\<bar>x\<bar> div \<bar>y\<bar>)))"

text \<open>
  \<open>get_minmax_indices\<close>: on the absolute values, the index of the smallest non-zero
  element (the first one, if several) and of the largest element (the last one, if
  several). The search for a first non-zero element runs off the end of an all-zero array.
\<close>

definition first_nonzero :: "int vec3 \<Rightarrow> error + (int \<times> nat)" where
  "first_nonzero a =
     (if vget a 0 \<noteq> 0 then Inr (vget a 0, 0)
      else if vget a 1 \<noteq> 0 then Inr (vget a 1, 1)
      else if vget a 2 \<noteq> 0 then Inr (vget a 2, 2)
      else Inl IndexError)"

definition min_scan :: "int vec3 \<Rightarrow> int \<times> nat \<Rightarrow> int \<times> nat" where
  "min_scan a start =
     fold (\<lambda>(i, ai) (mn, mini). if 0 < ai \<and> ai < mn then (ai, i) else (mn, mini))
       (enumerate 0 (vlist a)) start"

definition get_minmax_indices :: "int vec3 \<Rightarrow> error + (nat \<times> nat)" where
  "get_minmax_indices a0 =
     (let a = vmap abs a0;
          maxi = 2 - argmax (rev (vlist a))
      in case first_nonzero a of
           Inl e \<Rightarrow> Inl e
         | Inr start \<Rightarrow> Inr (snd (min_scan a start), maxi))"

text \<open>
  \<open>swap_column(M, B, k)\<close>: column \<open>k\<close> changes place with the column that holds the entry
  of largest absolute value in row \<open>k\<close>, from column \<open>k\<close> on.
\<close>

definition swap_column :: "int mat3 \<Rightarrow> int mat3 \<Rightarrow> nat \<Rightarrow> int mat3 \<times> int mat3" where
  "swap_column M B k =
     (let maxidx = argmax (map abs (drop k (vlist (vget M k)))) + k
      in (col_swap M k maxidx, col_swap B k maxidx))"

fun mat_allclose :: "real mat3 \<Rightarrow> real mat3 \<Rightarrow> real \<Rightarrow> real \<Rightarrow> bool" where
  "mat_allclose (a, b, c) (x, y, z) rtol atol \<longleftrightarrow>
     allclose a x rtol atol \<and> allclose b y rtol atol \<and> allclose c z rtol atol"

definition of_int_mat :: "int mat3 \<Rightarrow> real mat3" where
  "of_int_mat M = vmap (vmap of_int) M"

text \<open>\<open>np.allclose(np.dot(S, B), H)\<close>, with the default tolerances.\<close>

definition transform_ok :: "int mat3 \<Rightarrow> int mat3 \<Rightarrow> int mat3 \<Rightarrow> bool" where
  "transform_ok S H B \<longleftrightarrow>
     mat_allclose (of_int_mat (mat_mul S B)) (of_int_mat H) (1 / 10 ^ 5) (1 / 10 ^ 8)"

text \<open>
  The loops below stop because each column subtraction leaves a remainder smaller than
  the divisor; the lemmas that say so come before the loops that need them.
\<close>

lemma tdiv_remainder:
  assumes "tdiv x y = Inr k"
  shows "\<bar>x - k * y\<bar> < \<bar>y\<bar>"
proof -
  from assms have y: "y \<noteq> 0" and k: "k = sgn x * sgn y * (\<bar>x\<bar> div \<bar>y\<bar>)"
    by (auto simp: tdiv_def split: if_splits)
  have "k * y = sgn x * ((\<bar>x\<bar> div \<bar>y\<bar>) * (sgn y * y))"
    unfolding k by (simp add: algebra_simps)
  also have "sgn y * y = \<bar>y\<bar>" by (simp add: abs_sgn mult.commute)
  finally have "x - k * y = sgn x * \<bar>x\<bar> - sgn x * ((\<bar>x\<bar> div \<bar>y\<bar>) * \<bar>y\<bar>)"
    by (simp add: mult.commute [of "sgn x"] abs_sgn [symmetric] sgn_mult_abs)
  then have "x - k * y = sgn x * (\<bar>x\<bar> - (\<bar>x\<bar> div \<bar>y\<bar>) * \<bar>y\<bar>)"
    by (simp add: algebra_simps)
  also have "\<bar>x\<bar> - (\<bar>x\<bar> div \<bar>y\<bar>) * \<bar>y\<bar> = \<bar>x\<bar> mod \<bar>y\<bar>"
    by (simp add: minus_div_mult_eq_mod)
  finally have "x - k * y = sgn x * (\<bar>x\<bar> mod \<bar>y\<bar>)" .
  moreover have "0 \<le> \<bar>x\<bar> mod \<bar>y\<bar>" using y by simp
  ultimately have "\<bar>x - k * y\<bar> \<le> \<bar>x\<bar> mod \<bar>y\<bar>"
    by (simp add: abs_mult abs_sgn_eq)
  also have "\<dots> < \<bar>y\<bar>" using y by simp
  finally show ?thesis .
qed

lemma gmi_nonneg:
  assumes nn: "0 \<le> p" "0 \<le> q" "0 \<le> r"
    and two: "(p \<noteq> 0 \<and> q \<noteq> 0) \<or> (p \<noteq> 0 \<and> r \<noteq> 0) \<or> (q \<noteq> 0 \<and> r \<noteq> 0)"
  shows "\<exists>mi mx. get_minmax_indices (p, q, r) = Inr (mi, mx) \<and>
          mi < 3 \<and> mx < 3 \<and> mi \<noteq> mx \<and> vget (p, q, r) mi \<noteq> 0 \<and>
          vget (p, q, r) mi \<le> vget (p, q, r) mx"
  using assms
  by (auto simp: get_minmax_indices_def min_scan_def first_nonzero_def Let_def
      enumerate_eq_zip split: if_splits)

lemma gmi_abs: "get_minmax_indices (vmap abs a) = get_minmax_indices a"
  by (cases a) (simp add: get_minmax_indices_def)

lemma get_minmax_indices_two:
  assumes "1 < count_nonzero (vlist a)"
  shows "\<exists>mi mx. get_minmax_indices a = Inr (mi, mx) \<and> mi < 3 \<and> mx < 3 \<and> mi \<noteq> mx \<and>
           vget a mi \<noteq> 0 \<and> \<bar>vget a mi\<bar> \<le> \<bar>vget a mx\<bar>"
proof -
  obtain x y z where a: "a = (x, y, z)" by (metis prod_cases3)
  have cnt: "count_nonzero [x, y, z] =
      (if x = 0 then 0 else 1) + (if y = 0 then 0 else 1) + (if z = 0 then 0 else 1)"
    by (simp add: count_nonzero_def)
  from assms have two: "(\<bar>x\<bar> \<noteq> 0 \<and> \<bar>y\<bar> \<noteq> 0) \<or> (\<bar>x\<bar> \<noteq> 0 \<and> \<bar>z\<bar> \<noteq> 0) \<or> (\<bar>y\<bar> \<noteq> 0 \<and> \<bar>z\<bar> \<noteq> 0)"
    unfolding a vlist.simps cnt by (simp split: if_splits)
  have get: "\<And>i. vget (\<bar>x\<bar>, \<bar>y\<bar>, \<bar>z\<bar>) i = \<bar>vget (x, y, z) i\<bar>" by simp
  have nn: "0 \<le> \<bar>x\<bar>" "0 \<le> \<bar>y\<bar>" "0 \<le> \<bar>z\<bar>" by simp_all
  from gmi_nonneg [OF nn two] obtain mi mx where
    g: "get_minmax_indices (\<bar>x\<bar>, \<bar>y\<bar>, \<bar>z\<bar>) = Inr (mi, mx)"
    and p: "mi < 3" "mx < 3" "mi \<noteq> mx" "vget (\<bar>x\<bar>, \<bar>y\<bar>, \<bar>z\<bar>) mi \<noteq> 0"
      "vget (\<bar>x\<bar>, \<bar>y\<bar>, \<bar>z\<bar>) mi \<le> vget (\<bar>x\<bar>, \<bar>y\<bar>, \<bar>z\<bar>) mx"
    by blast
  from g gmi_abs [of a] have "get_minmax_indices a = Inr (mi, mx)"
    by (simp add: a)
  moreover from p(4,5) have "vget a mi \<noteq> 0" "\<bar>vget a mi\<bar> \<le> \<bar>vget a mx\<bar>"
    unfolding get a by simp_all
  ultimately show ?thesis using p(1-3) by blast
qed


lemma sum_abs_nonneg: "0 \<le> sum_list (map abs (xs :: int list))"
  by (induction xs) auto

lemma row0_decreases:
  assumes mi: "mi < 3" and mx: "mx < 3" and le: "\<bar>vget (vget H 0) mi\<bar> \<le> \<bar>vget (vget H 0) mx\<bar>"
    and k: "tdiv (vget (vget H 0) mx) (vget (vget H 0) mi) = Inr k"
  shows "sum_list (map abs (vlist (vget (col_sub H mx mi k) 0)))
           < sum_list (map abs (vlist (vget H 0)))"
proof -
  obtain r0 r1 r2 where H: "H = (r0, r1, r2)" by (metis prod_cases3)
  obtain x y z where r0: "r0 = (x, y, z)" by (metis prod_cases3)
  from mi mx have c: "mi = 0 \<or> mi = 1 \<or> mi = 2" "mx = 0 \<or> mx = 1 \<or> mx = 2" by auto
  from tdiv_remainder [OF k] le
  show ?thesis using c unfolding H r0 col_sub_def
    by (elim disjE) simp_all
qed

text \<open>
  The first \<open>while\<close> loop of \<open>HermiteNormalForm\<close>: column operations until at most one
  entry of row 0 is non-zero. \<open>S\<close> is the input matrix, \<open>H\<close> and \<open>B\<close> the arrays updated in
  place.
\<close>

function hnf_row0 ::
  "int mat3 \<Rightarrow> int mat3 \<Rightarrow> int mat3 \<Rightarrow> error + (int mat3 \<times> int mat3)" where
  "hnf_row0 S H B =
     (if 1 < count_nonzero (vlist (vget H 0)) then
        case get_minmax_indices (vget H 0) of
          Inl e \<Rightarrow> Inl e
        | Inr (minidx, maxidx) \<Rightarrow>
            (case tdiv (entry H 0 maxidx) (entry H 0 minidx) of
               Inl e \<Rightarrow> Inl e
             | Inr multiple \<Rightarrow>
                 if \<not> transform_ok S (col_sub H maxidx minidx multiple)
                      (col_sub B maxidx minidx multiple)
                 then Inl TransformFailed
                 else hnf_row0 S (col_sub H maxidx minidx multiple)
                        (col_sub B maxidx minidx multiple))
      else Inr (H, B))"
  by pat_completeness auto
termination
proof (relation "measure (\<lambda>(S, H, B). nat (sum_list (map abs (vlist (vget H 0)))))", goal_cases)
  case 1
  show ?case by simp
next
  case (2 S H B x2 minidx maxidx multiple)
  from get_minmax_indices_two [OF 2(1)] 2(2,3)
  have p: "minidx < 3" "maxidx < 3"
    "\<bar>vget (vget H 0) minidx\<bar> \<le> \<bar>vget (vget H 0) maxidx\<bar>"
    by auto
  from 2(4) have k: "tdiv (vget (vget H 0) maxidx) (vget (vget H 0) minidx) = Inr multiple"
    by (simp add: entry_def)
  from row0_decreases [OF p k] sum_abs_nonneg [of "vlist (vget (col_sub H maxidx minidx multiple) 0)"]
  show ?case by simp
qed


declare hnf_row0.simps [simp del]

lemma col_swap_12_abs:
  "\<bar>entry (col_swap H 1 2) 1 1\<bar> + \<bar>entry (col_swap H 1 2) 1 2\<bar> = \<bar>entry H 1 1\<bar> + \<bar>entry H 1 2\<bar>"
proof -
  obtain r0 r1 r2 where H: "H = (r0, r1, r2)" by (metis prod_cases3)
  obtain x y z where r1: "r1 = (x, y, z)" by (metis prod_cases3)
  show ?thesis unfolding H r1 by (simp add: col_swap_def entry_def)
qed

lemma elim12_decreases:
  assumes k: "tdiv (entry H 1 mx) (entry H 1 mn) = Inr k"
    and c: "(mx = 1 \<and> mn = 2 \<and> \<bar>entry H 1 2\<bar> < \<bar>entry H 1 1\<bar>) \<or>
            (mx = 2 \<and> mn = 1 \<and> \<not> \<bar>entry H 1 2\<bar> < \<bar>entry H 1 1\<bar>)"
  shows "\<bar>entry (col_sub H mx mn k) 1 1\<bar> + \<bar>entry (col_sub H mx mn k) 1 2\<bar>
           < \<bar>entry H 1 1\<bar> + \<bar>entry H 1 2\<bar>"
proof -
  obtain r0 r1 r2 where H: "H = (r0, r1, r2)" by (metis prod_cases3)
  obtain x y z where r1: "r1 = (x, y, z)" by (metis prod_cases3)
  from tdiv_remainder [OF k] c show ?thesis
    unfolding H r1 by (auto simp: col_sub_def entry_def)
qed

text \<open>
  The second loop, on \<open>H[1, 2]\<close>. When \<open>H[1, 1]\<close> is zero, columns 1 and 2 change places
  and the loop is left if \<open>H[1, 2]\<close> is then zero.
\<close>

function hnf_elim12 ::
  "int mat3 \<Rightarrow> int mat3 \<Rightarrow> int mat3 \<Rightarrow> error + (int mat3 \<times> int mat3)" where
  "hnf_elim12 S H B =
     (if entry H 1 2 \<noteq> 0 then
        let H1 = (if entry H 1 1 = 0 then col_swap H 1 2 else H);
            B1 = (if entry H 1 1 = 0 then col_swap B 1 2 else B)
        in if entry H 1 1 = 0 \<and> entry H1 1 2 = 0 then Inr (H1, B1)
           else
             let maxidx = (if \<bar>entry H1 1 2\<bar> < \<bar>entry H1 1 1\<bar> then 1 else 2);
                 minidx = (if \<bar>entry H1 1 2\<bar> < \<bar>entry H1 1 1\<bar> then 2 else 1)
             in case tdiv (entry H1 1 maxidx) (entry H1 1 minidx) of
                  Inl e \<Rightarrow> Inl e
                | Inr multiple \<Rightarrow>
                    if \<not> transform_ok S (col_sub H1 maxidx minidx multiple)
                         (col_sub B1 maxidx minidx multiple)
                    then Inl TransformFailed
                    else hnf_elim12 S (col_sub H1 maxidx minidx multiple)
                           (col_sub B1 maxidx minidx multiple)
      else Inr (H, B))"
  by pat_completeness auto
termination
proof (relation "measure (\<lambda>(S, H, B). nat (\<bar>entry H 1 1\<bar> + \<bar>entry H 1 2\<bar>))", goal_cases)
  case 1
  show ?case by simp
next
  case (2 S H B H1 B1 maxidx minidx multiple)
  have "\<bar>entry H1 1 1\<bar> + \<bar>entry H1 1 2\<bar> = \<bar>entry H 1 1\<bar> + \<bar>entry H 1 2\<bar>"
    unfolding 2(2) using col_swap_12_abs [of H]
    by (cases "entry H 1 1 = 0") (simp_all only: if_True if_False simp_thms)
  moreover have "\<bar>entry (col_sub H1 maxidx minidx multiple) 1 1\<bar> +
      \<bar>entry (col_sub H1 maxidx minidx multiple) 1 2\<bar> < \<bar>entry H1 1 1\<bar> + \<bar>entry H1 1 2\<bar>"
    by (rule elim12_decreases [OF 2(7)]) (simp add: 2(5,6))
  ultimately show ?case by simp arith
qed

declare hnf_elim12.simps [simp del]

text \<open>
  The three loops of the last part have one shape: while the entry \<open>H[i, j]\<close> is negative
  or not below the diagonal entry \<open>H[i, i]\<close>, column \<open>i\<close> is subtracted from or added to
  column \<open>j\<close>. Such a loop runs forever on a state whose diagonal entry is not positive,
  so the model returns an option.
\<close>

partial_function (option) hnf_reduce ::
  "nat \<Rightarrow> nat \<Rightarrow> int mat3 \<Rightarrow> int mat3 \<Rightarrow> (int mat3 \<times> int mat3) option" where
  "hnf_reduce i j H B =
     (if entry H i i \<le> entry H i j \<or> entry H i j < 0 then
        hnf_reduce i j
          (col_sub H j i (if entry H i i \<le> entry H i j then 1 else - 1))
          (col_sub B j i (if entry H i i \<le> entry H i j then 1 else - 1))
      else Some (H, B))"


text \<open>
  \<open>HermiteNormalForm\<close> in three parts, as the source is laid out: row 0, then the entry
  \<open>H[1, 2]\<close> and the signs of the diagonal, then the entries below the diagonal. The
  test at the top compares \<open>np.linalg.det(S)\<close> with 0. numpy computes that determinant in
  floating point, from an LU factorisation, and for a singular integer matrix the result
  need not be 0; its rounding is outside the model, so the function \<open>linalg_det\<close> that
  stands for it is an argument of \<open>HermiteNormalForm\<close>. The closing \<open>np.round(H, eps).astype(int)\<close>
  leaves an array of integers as it is, so \<open>eps\<close> is not an argument of the model. After
  the second loop the source exchanges columns 1 and 2 of \<open>H\<close> alone when \<open>H[1, 1]\<close> is
  zero; the model does the same.
\<close>

definition hnf_stage1 :: "int mat3 \<Rightarrow> error + (int mat3 \<times> int mat3)" where
  "hnf_stage1 S =
     (case hnf_row0 S S identity3 of
        Inl e \<Rightarrow> Inl e
      | Inr (H, B) \<Rightarrow>
          let (H1, B1) = (if entry H 0 0 = 0 then swap_column H B 0 else (H, B));
              (H2, B2) = (if entry H1 0 0 < 0 then (col_neg H1 0, col_neg B1 0) else (H1, B1))
          in if 1 < count_nonzero (vlist (vget H2 0)) then Inl RowNotZeroed
             else if \<not> transform_ok S H2 B2 then Inl TransformFailed
             else Inr (H2, B2))"

definition hnf_stage2 :: "int mat3 \<Rightarrow> int mat3 \<Rightarrow> int mat3 \<Rightarrow> error + (int mat3 \<times> int mat3)" where
  "hnf_stage2 S H0 B0 =
     (case hnf_elim12 S H0 B0 of
        Inl e \<Rightarrow> Inl e
      | Inr (H, B) \<Rightarrow>
          let H1 = (if entry H 1 1 = 0 then col_swap H 1 2 else H);
              H2 = (if entry H1 1 1 < 0 then col_neg H1 1 else H1);
              B2 = (if entry H1 1 1 < 0 then col_neg B 1 else B)
          in if entry H2 1 2 \<noteq> 0 then Inl LastNotZeroed
             else if \<not> transform_ok S H2 B2 then Inl TransformFailed
             else
               let H3 = (if entry H2 2 2 < 0 then col_neg H2 2 else H2);
                   B3 = (if entry H2 2 2 < 0 then col_neg B2 2 else B2)
               in if count_nonzero [entry H3 0 1, entry H3 0 2, entry H3 1 2] \<noteq> 0
                  then Inl NotLowerTriangular
                  else if \<not> transform_ok S H3 B3 then Inl TransformFailed
                  else Inr (H3, B3))"

definition hnf_final_checks :: "int mat3 \<Rightarrow> int mat3 \<Rightarrow> int mat3 \<Rightarrow> error + (int mat3 \<times> int mat3)" where
  "hnf_final_checks S H B =
     (if \<not> transform_ok S H B then Inl TransformFailed
      else if count_nonzero [entry H 0 1, entry H 0 2, entry H 1 2] \<noteq> 0
      then Inl NotLowerTriangular
      else if entry H 0 0 < 0 \<or> entry H 1 0 < 0 \<or> entry H 1 1 < 0 \<or>
              entry H 2 0 < 0 \<or> entry H 2 1 < 0 \<or> entry H 2 2 < 0
      then Inl NegativeLower
      else if entry H 1 1 < entry H 1 0 \<or> entry H 2 2 < entry H 2 0 \<or>
              entry H 2 2 < entry H 2 1
      then Inl LowerTooBig
      else Inr (H, B))"

definition hnf_stage3 ::
  "int mat3 \<Rightarrow> int mat3 \<Rightarrow> int mat3 \<Rightarrow> (error + (int mat3 \<times> int mat3)) option" where
  "hnf_stage3 S H B =
     (case hnf_reduce 1 0 H B of
        None \<Rightarrow> None
      | Some (H1, B1) \<Rightarrow>
          (case hnf_reduce 2 0 H1 B1 of
             None \<Rightarrow> None
           | Some (H2, B2) \<Rightarrow>
               (case hnf_reduce 2 1 H2 B2 of
                  None \<Rightarrow> None
                | Some (H3, B3) \<Rightarrow> Some (hnf_final_checks S H3 B3))))"

definition HermiteNormalForm ::
  "(int mat3 \<Rightarrow> real) \<Rightarrow> int mat3 \<Rightarrow> (error + (int mat3 \<times> int mat3)) option" where
  "HermiteNormalForm linalg_det S =
     (if linalg_det S = 0 then Some (Inl SingularMatrix)
      else case hnf_stage1 S of
             Inl e \<Rightarrow> Some (Inl e)
           | Inr (H, B) \<Rightarrow>
               (case hnf_stage2 S H B of
                  Inl e \<Rightarrow> Some (Inl e)
                | Inr (H', B') \<Rightarrow> hnf_stage3 S H' B'))"

section \<open>The k-point index\<close>

text \<open>
  \<open>numpy.round(x, decimals)\<close> for any integer number of decimals, \<open>astype(int)\<close> on a
  float (the fraction is cut off, towards zero) and \<open>%\<close> on array integers (the sign of
  the divisor, and 0 for a zero divisor).
\<close>

definition np_round :: "real \<Rightarrow> int \<Rightarrow> real" where
  "np_round x decimals =
     (if 0 \<le> decimals then of_int (rint (x * 10 ^ nat decimals)) / 10 ^ nat decimals
      else of_int (rint (x / 10 ^ nat (- decimals))) * 10 ^ nat (- decimals))"

definition trunc :: "real \<Rightarrow> int" where
  "trunc x = (if 0 \<le> x then \<lfloor>x\<rfloor> else \<lceil>x\<rceil>)"

definition np_mod :: "int \<Rightarrow> int \<Rightarrow> int" where
  "np_mod a d = (if d = 0 then 0 else a mod d)"

text \<open>
  \<open>find_kpt_index(kpt, invK, L, D, eps)\<close>. The callers pass the k-point with the shift
  already subtracted. \<open>L\<close> and \<open>D\<close> are integer arrays.
\<close>

definition find_kpt_index ::
  "real vec3 \<Rightarrow> real mat3 \<Rightarrow> int mat3 \<Rightarrow> int vec3 \<Rightarrow> int \<Rightarrow> int" where
  "find_kpt_index kpt invK L D eps =
     (let gpt = vmap (\<lambda>x. np_round x eps) (mat_vec invK kpt);
          g = vmap trunc (mat_vec (of_int_mat L) gpt);
          gpt' = (np_mod (vget g 0) (vget D 0), np_mod (vget g 1) (vget D 1),
                  np_mod (vget g 2) (vget D 2))
      in vget gpt' 0 * vget D 1 * vget D 2 + vget gpt' 1 * vget D 2 + vget gpt' 2)"

text \<open>
  The index as the specification words it, for comparison: \<open>L\<close> times the rounded grid
  coordinates, modulo \<open>D = (D1, D2, D3)\<close>, dotted against \<open>(D1 D2, D2, 1)\<close>.
\<close>

definition spec_kpt_index :: "real vec3 \<Rightarrow> real mat3 \<Rightarrow> int mat3 \<Rightarrow> int vec3 \<Rightarrow> int" where
  "spec_kpt_index kpt invK L D =
     (let g = mat_vec L (vmap rint (mat_vec invK kpt));
          m = (vget g 0 mod vget D 0, vget g 1 mod vget D 1, vget g 2 mod vget D 2)
      in dot m (vget D 0 * vget D 1, vget D 1, 1))"

section \<open>Point group of a lattice\<close>

text \<open>
  \<open>search_sphere\<close>: the lattice points within the sphere whose radius is the length of the
  longest lattice vector. The lattice vectors are the columns of \<open>lat_vecs\<close>. The index
  bounds come from dividing by the lengths of the orthogonalised vectors; a zero length
  gives an infinity or NaN, which \<open>int\<close> refuses.
\<close>

definition search_sphere :: "real mat3 \<Rightarrow> real \<Rightarrow> error + real vec3 list" where
  "search_sphere lat_vecs eps =
     (let a0 = vget (transpose3 lat_vecs) 0;
          a1 = vget (transpose3 lat_vecs) 1;
          a2 = vget (transpose3 lat_vecs) 2;
          a0_hat = smul (1 / vnorm a0) a0;
          a1p = vsub a1 (smul (dot a1 a0_hat) a0_hat);
          a1p_hat = smul (1 / vnorm a1p) a1p;
          a2p = vsub (vsub a2 (smul (dot a2 a1p_hat) a1p_hat)) (smul (dot a2 a0_hat) a0_hat);
          max_norm = Max {vnorm a0, vnorm a1, vnorm a2}
      in if vnorm a0 = 0 \<or> vnorm a1p = 0 \<or> vnorm a2p = 0 then Inl IntOfNonFinite
         else
           let m0 = \<lceil>max_norm / vnorm a0 + eps\<rceil>;
               m1 = \<lceil>max_norm / vnorm a1p + eps\<rceil>;
               m2 = \<lceil>max_norm / vnorm a2p + eps\<rceil>
           in Inr (concat (map (\<lambda>i. concat (map (\<lambda>j. concat (map (\<lambda>k.
                  let pt = mat_vec lat_vecs (of_int i, of_int j, of_int k)
                  in if dot pt pt - eps < max_norm\<^sup>2 then [pt] else [])
                [- m2..m2])) [- m1..m1])) [- m0..m0])))"

text \<open>\<open>itertools.permutations(pts, 3)\<close>: the ordered triples at three different positions.\<close>

definition permutations3 :: "'a list \<Rightarrow> ('a \<times> 'a \<times> 'a) list" where
  "permutations3 xs =
     concat (map (\<lambda>i. concat (map (\<lambda>j. concat (map (\<lambda>k.
         if i \<noteq> j \<and> i \<noteq> k \<and> j \<noteq> k then [(xs ! i, xs ! j, xs ! k)] else [])
       [0..<length xs])) [0..<length xs])) [0..<length xs])"

text \<open>
  Modelled from the spec: \<open>check_contained\<close> and \<open>find_point_indices\<close> of \<open>BZI.utilities\<close>
  are not among the sources. The specification has the accepted operators deduplicated
  and calls two atoms equivalent when they have the same label and their positions are
  equal within tolerance; the tests use \<open>check_contained\<close> for "every element of the first
  list is in the second". So an element is contained in a list when it is close to one of
  its elements, and \<open>find_point_indices\<close> gives the positions of the elements close to a
  given one. Closeness is \<open>numpy.allclose\<close>; where the caller passes no tolerances they are
  numpy's defaults.
\<close>

definition contained_by :: "('a \<Rightarrow> 'a \<Rightarrow> bool) \<Rightarrow> 'a list \<Rightarrow> 'a list \<Rightarrow> bool" where
  "contained_by close sub super \<longleftrightarrow> list_all (\<lambda>s. list_ex (close s) super) sub"

definition indices_by :: "('a \<Rightarrow> 'a \<Rightarrow> bool) \<Rightarrow> 'a \<Rightarrow> 'a list \<Rightarrow> nat list" where
  "indices_by close point points = filter (\<lambda>i. close point (points ! i)) [0..<length points]"

definition check_contained :: "real mat3 list \<Rightarrow> real mat3 list \<Rightarrow> real \<Rightarrow> real \<Rightarrow> bool" where
  "check_contained sub super rtol atol \<longleftrightarrow>
     contained_by (\<lambda>s ss. mat_allclose s ss rtol atol) sub super"

text \<open>The body of the loop of \<open>get_point_group\<close> for one triple of sphere points.\<close>

definition point_group_step ::
  "real mat3 \<Rightarrow> real mat3 \<Rightarrow> real \<Rightarrow> real \<Rightarrow> real vec3 \<times> real vec3 \<times> real vec3
     \<Rightarrow> real mat3 list \<Rightarrow> real mat3 list" where
  "point_group_step lat_vecs inv_lat_vecs rtol atol p point_group =
     (case p of (p1, p2, p3) \<Rightarrow>
        let a1 = vget (transpose3 lat_vecs) 0;
            a2 = vget (transpose3 lat_vecs) 1;
            a3 = vget (transpose3 lat_vecs) 2
        in if isclose (dot p1 p1) (dot a1 a1) rtol atol \<and>
              isclose (dot p2 p2) (dot a2 a2) rtol atol \<and>
              isclose (dot p3 p3) (dot a3 a3) rtol atol
           then
             let new_lat_vecs = transpose3 (p1, p2, p3)
             in if isclose \<bar>det3 new_lat_vecs\<bar> \<bar>det3 lat_vecs\<bar> rtol atol
                then
                  let op = mat_mul new_lat_vecs inv_lat_vecs
                  in if mat_allclose identity3 (mat_mul op (transpose3 op)) rtol atol
                     then if \<not> check_contained [op] point_group rtol atol
                          then point_group @ [op]
                          else point_group
                     else point_group
                else point_group
           else point_group)"

definition get_point_group :: "real mat3 \<Rightarrow> real \<Rightarrow> real \<Rightarrow> real \<Rightarrow> error + real mat3 list" where
  "get_point_group lat_vecs rtol atol eps =
     (case search_sphere lat_vecs eps of
        Inl e \<Rightarrow> Inl e
      | Inr pts \<Rightarrow>
          (case inv3 lat_vecs of
             Inl e \<Rightarrow> Inl e
           | Inr inv_lat_vecs \<Rightarrow>
               Inr (fold (point_group_step lat_vecs inv_lat_vecs rtol atol)
                      (permutations3 pts) [])))"

section \<open>Space group of a crystal\<close>

text \<open>
  The nested function \<open>check_atom_equivalency\<close>: the atoms at the given position must be
  among the atoms with the given label. Labels are integers.
\<close>

definition check_atom_equivalency ::
  "int \<Rightarrow> real vec3 \<Rightarrow> int list \<Rightarrow> real vec3 list \<Rightarrow> bool" where
  "check_atom_equivalency atom_label_i atom_position_i atom_labels atom_positions =
     (let label_index =
            indices_by (\<lambda>a b. isclose_default (of_int a) (of_int b)) atom_label_i atom_labels;
          position_index =
            indices_by (\<lambda>p q. allclose p q (1 / 10 ^ 5) (1 / 10 ^ 8)) atom_position_i
              atom_positions
      in contained_by (\<lambda>i j. isclose_default (of_nat i) (of_nat j)) position_index label_index)"

text \<open>A list of results, up to the first error.\<close>

fun collect :: "(error + 'a) list \<Rightarrow> error + 'a list" where
  "collect [] = Inr []"
| "collect (Inl e # rs) = Inl e"
| "collect (Inr x # rs) = (case collect rs of Inl e \<Rightarrow> Inl e | Inr xs \<Rightarrow> Inr (x # xs))"

text \<open>
  The innermost loop of \<open>get_space_group\<close>: is every atom mapped, by the rotation and the
  translation and the folding into the cell, onto an atom of its own type? The loop stops
  at the first atom that is not.
\<close>

fun all_atoms_mapped ::
  "real mat3 \<Rightarrow> real vec3 \<Rightarrow> real mat3 \<Rightarrow> real \<Rightarrow> real \<Rightarrow> int list \<Rightarrow> real vec3 list
     \<Rightarrow> (int \<times> real vec3) list \<Rightarrow> error + bool" where
  "all_atoms_mapped lpg frac_trans lattice_vectors rtol atol atom_labels atomic_basis [] = Inr True"
| "all_atoms_mapped lpg frac_trans lattice_vectors rtol atol atom_labels atomic_basis
     ((atom_type_j, atom_pos_j) # rest) =
     (case bring_into_cell (vadd (mat_vec lpg atom_pos_j) frac_trans) lattice_vectors rtol atol
             ''Cart'' False of
        Inl e \<Rightarrow> Inl e
      | Inr rot_atom_pos_j \<Rightarrow>
          if check_atom_equivalency atom_type_j rot_atom_pos_j atom_labels atomic_basis
          then all_atoms_mapped lpg frac_trans lattice_vectors rtol atol atom_labels atomic_basis
                 rest
          else Inr False)"

text \<open>
  The middle loop, over the atoms of the type of the first atom: each gives a candidate
  translation, and the pair is appended to both result lists when every atom is mapped.
\<close>

fun translations_loop ::
  "real mat3 \<Rightarrow> real mat3 \<Rightarrow> real \<Rightarrow> real \<Rightarrow> int list \<Rightarrow> real vec3 list \<Rightarrow> int \<Rightarrow> real vec3
     \<Rightarrow> (int \<times> real vec3) list \<Rightarrow> real mat3 list \<times> real vec3 list
     \<Rightarrow> error + (real mat3 list \<times> real vec3 list)" where
  "translations_loop lpg lattice_vectors rtol atol atom_labels atomic_basis first_atom_type
     rot_first_atom_pos [] acc = Inr acc"
| "translations_loop lpg lattice_vectors rtol atol atom_labels atomic_basis first_atom_type
     rot_first_atom_pos ((atom_type_i, atom_pos_i) # rest) acc =
     (if first_atom_type \<noteq> atom_type_i
      then translations_loop lpg lattice_vectors rtol atol atom_labels atomic_basis
             first_atom_type rot_first_atom_pos rest acc
      else
        case bring_into_cell (vsub atom_pos_i rot_first_atom_pos) lattice_vectors rtol atol
               ''Cart'' False of
          Inl e \<Rightarrow> Inl e
        | Inr frac_trans \<Rightarrow>
            (case all_atoms_mapped lpg frac_trans lattice_vectors rtol atol atom_labels
                    atomic_basis (zip atom_labels atomic_basis) of
               Inl e \<Rightarrow> Inl e
             | Inr equivalent \<Rightarrow>
                 translations_loop lpg lattice_vectors rtol atol atom_labels atomic_basis
                   first_atom_type rot_first_atom_pos rest
                   (if equivalent then (fst acc @ [lpg], snd acc @ [frac_trans]) else acc)))"

text \<open>The outer loop, over the operators of the lattice point group.\<close>

fun operators_loop ::
  "real mat3 \<Rightarrow> real \<Rightarrow> real \<Rightarrow> int list \<Rightarrow> real vec3 list \<Rightarrow> int \<Rightarrow> real vec3
     \<Rightarrow> real mat3 list \<Rightarrow> real mat3 list \<times> real vec3 list
     \<Rightarrow> error + (real mat3 list \<times> real vec3 list)" where
  "operators_loop lattice_vectors rtol atol atom_labels atomic_basis first_atom_type
     first_atom_pos [] acc = Inr acc"
| "operators_loop lattice_vectors rtol atol atom_labels atomic_basis first_atom_type
     first_atom_pos (lpg # rest) acc =
     (case translations_loop lpg lattice_vectors rtol atol atom_labels atomic_basis
             first_atom_type (mat_vec lpg first_atom_pos) (zip atom_labels atomic_basis) acc of
        Inl e \<Rightarrow> Inl e
      | Inr acc' \<Rightarrow>
          operators_loop lattice_vectors rtol atol atom_labels atomic_basis first_atom_type
            first_atom_pos rest acc')"

text \<open>
  The atom positions as \<open>get_space_group\<close> works with them: in Cartesian coordinates and
  folded into the first unit cell.
\<close>

definition folded_basis ::
  "real mat3 \<Rightarrow> real vec3 list \<Rightarrow> string \<Rightarrow> real \<Rightarrow> real \<Rightarrow> error + real vec3 list" where
  "folded_basis lattice_vectors atom_positions coords rtol atol =
     collect (map (\<lambda>ab. bring_into_cell ab lattice_vectors rtol atol ''Cart'' False)
       (if coords = ''lat'' then map (mat_vec lattice_vectors) atom_positions
        else atom_positions))"

definition get_space_group ::
  "real mat3 \<Rightarrow> int list \<Rightarrow> real vec3 list \<Rightarrow> string \<Rightarrow> real \<Rightarrow> real \<Rightarrow> real
     \<Rightarrow> error + (real mat3 list \<times> real vec3 list)" where
  "get_space_group lattice_vectors atom_labels atom_positions coords rtol atol eps =
     (case folded_basis lattice_vectors atom_positions coords rtol atol of
        Inl e \<Rightarrow> Inl e
      | Inr atomic_basis \<Rightarrow>
          (case get_point_group lattice_vectors rtol atol eps of
             Inl e \<Rightarrow> Inl e
           | Inr lattice_pointgroup \<Rightarrow>
               (case atom_labels of
                  [] \<Rightarrow> Inl IndexError
                | first_atom_type # _ \<Rightarrow>
                    (case atomic_basis of
                       [] \<Rightarrow> Inl IndexError
                     | first_atom_pos # _ \<Rightarrow>
                         operators_loop lattice_vectors rtol atol atom_labels atomic_basis
                           first_atom_type first_atom_pos lattice_pointgroup ([], [])))))"

section \<open>Reduction of a list of k-points\<close>

text \<open>
  \<open>check_commensurate(lattice, sublattice)\<close>: the matrix \<open>N = inv(lattice) sublattice\<close>, as
  an array of integers when every entry is close to its rounded value, and as it is
  otherwise. The two constructors are the two values of the flag returned first.
\<close>

datatype commensurate = Commensurate "int mat3" | NotCommensurate "real mat3"

definition check_commensurate ::
  "real mat3 \<Rightarrow> real mat3 \<Rightarrow> real \<Rightarrow> real \<Rightarrow> error + commensurate" where
  "check_commensurate lattice sublattice rtol atol =
     (case inv3 lattice of
        Inl e \<Rightarrow> Inl e
      | Inr iv \<Rightarrow>
          let N = mat_mul iv sublattice
          in if mat_allclose N (of_int_mat (vmap (vmap rint) N)) rtol atol
             then Inr (Commensurate (vmap (vmap rint) N))
             else Inr (NotCommensurate N))"

text \<open>
  The state of the traversal. \<open>hashtable\<close> is made by \<open>dict.fromkeys(range(nUR))\<close>: its keys
  are \<open>0, ..., nUR - 1\<close> for good, so it is a list indexed by the key, and reading any other
  key is a \<open>KeyError\<close>. \<open>iFirst\<close> and \<open>iWt\<close> get the keys \<open>1, 2, ...\<close> in this order, one for
  every new orbit, so they are lists too, with the entry of orbit \<open>c\<close> at position \<open>c - 1\<close>;
  \<open>list(iWt.values())\<close> is the list itself.
\<close>

record orbit_state =
  cOrbit :: nat
  hashtable :: "nat option list"
  iFirst :: "nat list"
  iWt :: "nat list"
  kpt_index_conv :: "int \<rightharpoonup> nat"

definition lookup :: "nat option list \<Rightarrow> int \<Rightarrow> error + nat option" where
  "lookup table k = (if 0 \<le> k \<and> nat k < length table then Inr (table ! nat k) else Inl KeyError)"

text \<open>
  The loop \<open>for pg in pointgroup\<close> on the k-point \<open>ur_kpt\<close> that has just opened orbit
  \<open>cOrbit\<close>. The k-point is rotated, and nothing else is done to it before it is folded
  into the first unit cell. \<open>rtol\<close> is the relative tolerance of the test that the
  folded point lies on the grid.
\<close>

fun rotate_orbit ::
  "real vec3 \<Rightarrow> real mat3 \<Rightarrow> real mat3 \<Rightarrow> real vec3 \<Rightarrow> int mat3 \<Rightarrow> int vec3 \<Rightarrow> int \<Rightarrow> real
     \<Rightarrow> real mat3 list \<Rightarrow> orbit_state \<Rightarrow> error + orbit_state" where
  "rotate_orbit ur_kpt rlattice_vectors invK shift L D eps rtol [] st = Inr st"
| "rotate_orbit ur_kpt rlattice_vectors invK shift L D eps rtol (pg # pointgroup) st =
     (case bring_into_cell (mat_vec pg ur_kpt) rlattice_vectors (1 / 10 ^ 5) (1 / 10 ^ 8)
             ''Cart'' False of
        Inl e \<Rightarrow> Inl e
      | Inr rot_kpt \<Rightarrow>
          if \<not> allclose (mat_vec invK (vsub rot_kpt shift))
                 (vmap (\<lambda>x. of_int (rint x)) (mat_vec invK (vsub rot_kpt shift)))
                 rtol (1 / 10 ^ 8)
          then rotate_orbit ur_kpt rlattice_vectors invK shift L D eps rtol pointgroup st
          else
            (case lookup (hashtable st) (find_kpt_index (vsub rot_kpt shift) invK L D eps) of
               Inl e \<Rightarrow> Inl e
             | Inr (Some c) \<Rightarrow>
                 rotate_orbit ur_kpt rlattice_vectors invK shift L D eps rtol pointgroup st
             | Inr None \<Rightarrow>
                 rotate_orbit ur_kpt rlattice_vectors invK shift L D eps rtol pointgroup
                   (st\<lparr>hashtable := (hashtable st)
                          [nat (find_kpt_index (vsub rot_kpt shift) invK L D eps) :=
                             Some (cOrbit st)],
                       iWt := (iWt st)[cOrbit st - 1 := iWt st ! (cOrbit st - 1) + 1]\<rparr>)))"

text \<open>
  The loop \<open>for i in range(nUR)\<close>, on the list of the pairs \<open>(i, kpoint_list[i])\<close> still to
  come. \<open>reduce_kpoint_list\<close> runs the same loop without the dictionary \<open>kpt_index_conv\<close>,
  which only the last part of \<open>find_orbits\<close> reads.
\<close>

fun traverse ::
  "real mat3 \<Rightarrow> real mat3 \<Rightarrow> real vec3 \<Rightarrow> int mat3 \<Rightarrow> int vec3 \<Rightarrow> int \<Rightarrow> real
     \<Rightarrow> real mat3 list \<Rightarrow> (nat \<times> real vec3) list \<Rightarrow> orbit_state \<Rightarrow> error + orbit_state" where
  "traverse rlattice_vectors invK shift L D eps rtol pointgroup [] st = Inr st"
| "traverse rlattice_vectors invK shift L D eps rtol pointgroup ((i, ur_kpt) # rest) st =
     (let kpt_hash = find_kpt_index (vsub ur_kpt shift) invK L D eps;
          st1 = st\<lparr>kpt_index_conv := (kpt_index_conv st)(kpt_hash \<mapsto> i)\<rparr>
      in case lookup (hashtable st1) kpt_hash of
           Inl e \<Rightarrow> Inl e
         | Inr (Some c) \<Rightarrow> traverse rlattice_vectors invK shift L D eps rtol pointgroup rest st1
         | Inr None \<Rightarrow>
             (case rotate_orbit ur_kpt rlattice_vectors invK shift L D eps rtol pointgroup
                     (st1\<lparr>cOrbit := cOrbit st1 + 1,
                          hashtable := (hashtable st1)[nat kpt_hash := Some (cOrbit st1 + 1)],
                          iFirst := iFirst st1 @ [i],
                          iWt := iWt st1 @ [1]\<rparr>) of
                Inl e \<Rightarrow> Inl e
              | Inr st2 \<Rightarrow>
                  traverse rlattice_vectors invK shift L D eps rtol pointgroup rest st2))"

definition initial_state :: "nat \<Rightarrow> orbit_state" where
  "initial_state nUR =
     \<lparr>cOrbit = 0, hashtable = replicate nUR None, iFirst = [], iWt = [],
      kpt_index_conv = Map.empty\<rparr>"

text \<open>
  \<open>reduce_kpoint_list\<close>. Three things come from outside the program and are arguments
  of the model: the floating-point determinant that \<open>HermiteNormalForm\<close> tests,
  \<open>SmithNormalForm\<close> of the package phenum, which returns the Smith normal form with its
  left and right transformations, and \<open>find_point_group\<close>, which hands the lattice to
  phenum. \<open>lattice_vectors\<close> are the vectors of the reciprocal lattice. The sum of the
  weights is taken over the first \<open>cOrbit\<close> entries of the list of weights.
\<close>

definition reduce_kpoint_list ::
  "(int mat3 \<Rightarrow> real) \<Rightarrow> (int mat3 \<Rightarrow> int mat3 \<times> int mat3 \<times> int mat3) \<Rightarrow>
   (real mat3 \<Rightarrow> real mat3 list) \<Rightarrow>
   real vec3 list \<Rightarrow> real mat3 \<Rightarrow> real mat3 \<Rightarrow> real vec3 \<Rightarrow> int \<Rightarrow> real \<Rightarrow> real
     \<Rightarrow> (error + (real vec3 list \<times> nat list)) option" where
  "reduce_kpoint_list linalg_det SmithNormalForm find_point_group
       kpoint_list lattice_vectors grid_vectors shift0 eps rtol atol =
     (case inv3 lattice_vectors of
        Inl e \<Rightarrow> Some (Inl LatticeDependent)
      | Inr invL \<Rightarrow>
     (case inv3 grid_vectors of
        Inl e \<Rightarrow> Some (Inl GridDependent)
      | Inr invK \<Rightarrow>
          if \<bar>det3 lattice_vectors\<bar> < \<bar>det3 grid_vectors\<bar> then Some (Inl GridCellTooLarge)
          else
            (case check_commensurate grid_vectors lattice_vectors rtol atol of
               Inl e \<Rightarrow> Some (Inl e)
             | Inr (NotCommensurate N) \<Rightarrow> Some (Inl Incommensurate)
             | Inr (Commensurate N) \<Rightarrow>
                 (case HermiteNormalForm linalg_det N of
                    None \<Rightarrow> None
                  | Some (Inl e) \<Rightarrow> Some (Inl e)
                  | Some (Inr (H, B)) \<Rightarrow>
                      (case SmithNormalForm H of (S, L, R) \<Rightarrow>
                         (case traverse lattice_vectors invK (mat_vec grid_vectors shift0) L
                                 (entry S 0 0, entry S 1 1, entry S 2 2) eps (1 / 10 ^ 5)
                                 (find_point_group lattice_vectors)
                                 (enumerate 0 kpoint_list)
                                 (initial_state (length kpoint_list)) of
                            Inl e \<Rightarrow> Some (Inl e)
                          | Inr st \<Rightarrow>
                              if length (iWt st) < cOrbit st then Some (Inl IndexError)
                              else if sum_list (take (cOrbit st) (iWt st)) \<noteq> length kpoint_list
                              then Some (Inl WeightSumMismatch)
                              else Some (Inr (map (\<lambda>i. kpoint_list ! i) (iFirst st),
                                              iWt st))))))))"






section \<open>Properties\<close>

subsection \<open>Linear algebra on triples\<close>

lemma adjugate_mat_vec:
  "mat_vec (adjugate M) (mat_vec M v) = smul (det3 M) (v :: 'a::comm_ring_1 vec3)"
proof -
  obtain a b c d e f g h i where M: "M = ((a, b, c), (d, e, f), (g, h, i))"
    by (metis prod_cases3)
  obtain x y z where v: "v = (x, y, z)" by (metis prod_cases3)
  show ?thesis unfolding M v by (simp add: algebra_simps)
qed

lemma mat_vec_scale:
  "mat_vec (vmap (smul k) A) w = smul k (mat_vec A (w :: 'a::comm_ring_1 vec3))"
proof -
  obtain a b c d e f g h i where A: "A = ((a, b, c), (d, e, f), (g, h, i))"
    by (metis prod_cases3)
  obtain x y z where w: "w = (x, y, z)" by (metis prod_cases3)
  show ?thesis unfolding A w by (simp add: algebra_simps)
qed

lemma smul_smul: "smul k (smul l v) = smul (k * l) (v :: 'a::comm_ring_1 vec3)"
  by (cases v) (simp add: algebra_simps)

lemma smul_one: "smul 1 v = (v :: 'a::comm_ring_1 vec3)"
  by (cases v) simp

lemma inv3_mat_vec:
  assumes "inv3 M = Inr iv"
  shows "mat_vec iv (mat_vec M v) = v"
proof -
  from assms have nz: "det3 M \<noteq> 0" and iv: "iv = vmap (smul (1 / det3 M)) (adjugate M)"
    by (auto simp: inv3_def split: if_splits)
  show ?thesis
    by (simp add: iv mat_vec_scale adjugate_mat_vec smul_smul nz smul_one)
qed

subsection \<open>Gaussian reduction\<close>

lemma sort_pair_sorted: "sort_pair v1 v2 = (a, b) \<Longrightarrow> vnorm a \<le> vnorm b"
  by (auto simp: sort_pair_def argsort_def Let_def split: if_splits)

lemma gaussian_loop_result:
  "gaussian_loop it v1 v2 eps = Inr (n, a, b) \<Longrightarrow> n \<le> 10 \<and> it < n \<and> vnorm a \<le> vnorm b"
proof (induction it v1 v2 eps rule: gaussian_loop.induct)
  case (1 it v1 v2 eps)
  define v2' where "v2' = vsub v2 (smul (of_int (rint (dot v1 v2 / dot v1 v1))) v1)"
  obtain x y where xy: "sort_pair v1 v2' = (x, y)" by (cases "sort_pair v1 v2'")
  from "1.prems" have small: "\<not> 10 < it + 1" and nz: "dot v1 v1 \<noteq> 0"
    by (auto simp: gaussian_loop.simps [of it v1 v2 eps] Let_def split: if_splits)
  show ?case
  proof (cases "vnorm v1 - eps < vnorm v2'")
    case True
    with "1.prems" small nz xy have "n = it + 1" "a = x" "b = y"
      by (auto simp: gaussian_loop.simps [of it v1 v2 eps] Let_def v2'_def)
    with small sort_pair_sorted [OF xy] show ?thesis by simp
  next
    case False
    with "1.prems" small nz xy have rec: "gaussian_loop (it + 1) x y eps = Inr (n, a, b)"
      by (auto simp: gaussian_loop.simps [of it v1 v2 eps] Let_def v2'_def)
    have "n \<le> 10 \<and> it + 1 < n \<and> vnorm a \<le> vnorm b"
      by (rule "1.IH" [OF refl small nz refl refl refl xy [symmetric, unfolded v2'_def]
            False [unfolded v2'_def] rec])
    then show ?thesis by simp
  qed
qed

lemma gaussian_loop_error:
  "gaussian_loop it v1 v2 eps = Inl e \<Longrightarrow> e = GaussianNotReduced"
proof (induction it v1 v2 eps rule: gaussian_loop.induct)
  case (1 it v1 v2 eps)
  show ?case
  proof (cases "10 < it + 1 \<or> dot v1 v1 = 0")
    case True
    with "1.prems" show ?thesis
      by (auto simp: gaussian_loop.simps [of it v1 v2 eps] Let_def split: if_splits)
  next
    case False
    define v2' where "v2' = vsub v2 (smul (of_int (rint (dot v1 v2 / dot v1 v1))) v1)"
    obtain x y where xy: "sort_pair v1 v2' = (x, y)" by (cases "sort_pair v1 v2'")
    from "1.prems" False xy have nr: "\<not> vnorm v1 - eps < vnorm v2'"
      and rec: "gaussian_loop (it + 1) x y eps = Inl e"
      by (auto simp: gaussian_loop.simps [of it v1 v2 eps] Let_def v2'_def split: if_splits)
    from False have small: "\<not> 10 < it + 1" and nz: "dot v1 v1 \<noteq> 0" by auto
    show ?thesis
      by (rule "1.IH" [OF refl small nz refl refl refl xy [symmetric, unfolded v2'_def]
            nr [unfolded v2'_def] rec])
  qed
qed

text \<open>
  C7. \<open>gaussian_reduction\<close> always returns: its loop is a total function whose counter
  never passes 10. A normal return comes from one of the first ten iterations and gives a
  pair with \<open>|v1'| \<le> |v2'|\<close>; anything else is the non-convergence error.
\<close>

theorem gaussian_reduction_bounded:
  "(case gaussian_loop 0 v1 v2 eps of
      Inl e \<Rightarrow> e = GaussianNotReduced
    | Inr (n, a, b) \<Rightarrow> 0 < n \<and> n \<le> 10 \<and> vnorm a \<le> vnorm b) \<and>
   (case gaussian_reduction v1 v2 eps of
      Inl e \<Rightarrow> e = GaussianNotReduced
    | Inr (a, b) \<Rightarrow> vnorm a \<le> vnorm b)"
proof
  show "case gaussian_loop 0 v1 v2 eps of
      Inl e \<Rightarrow> e = GaussianNotReduced
    | Inr (n, a, b) \<Rightarrow> 0 < n \<and> n \<le> 10 \<and> vnorm a \<le> vnorm b"
    using gaussian_loop_result [of 0 v1 v2 eps] gaussian_loop_error [of 0 v1 v2 eps]
    by (auto split: sum.splits)
next
  obtain x y where xy: "sort_pair v1 v2 = (x, y)" by (cases "sort_pair v1 v2")
  show "case gaussian_reduction v1 v2 eps of
      Inl e \<Rightarrow> e = GaussianNotReduced
    | Inr (a, b) \<Rightarrow> vnorm a \<le> vnorm b"
    using gaussian_loop_result [of 0 x y eps] gaussian_loop_error [of 0 x y eps] xy
    by (auto simp: gaussian_reduction_def split: sum.splits)
qed

subsection \<open>Folding into the cell\<close>

lemma frac_unit: "0 \<le> y \<Longrightarrow> y < 1 \<Longrightarrow> frac y = (y::real)"
  by (simp add: frac_eq)

lemma frac_shift: "0 \<le> y \<Longrightarrow> y < 1 \<Longrightarrow> frac (y - 1) = (y::real)"
  using frac_unit [of y] frac_1_eq [of "y - 1"] by simp

lemma fold_coord_plain_idem:
  "fold_coord rtol atol False (fold_coord rtol atol False x) = fold_coord rtol atol False x"
  unfolding fold_coord_def Let_def isclose_def
  by (auto simp: frac_lt_1 frac_ge_0 frac_eq)

lemma fold_coord_centered_idem:
  assumes tol: "atol + rtol < 1 / 2"
  shows "fold_coord rtol atol True (fold_coord rtol atol True x) = fold_coord rtol atol True x"
proof -
  define y1 where "y1 = (if isclose (frac x) 1 rtol atol then 0 else frac x)"
  define y2 where "y2 = (if 1 / 2 < y1 then y1 - 1 else y1)"
  define w where "w = (if isclose y2 (1 / 2) rtol atol then - (1 / 2) else y2)"
  have w: "fold_coord rtol atol True x = w"
    by (simp add: fold_coord_def Let_def y1_def y2_def w_def)
  have y1: "0 \<le> y1" "y1 < 1"
    using frac_lt_1 [of x] frac_ge_0 [of x] by (auto simp: y1_def)
  have nc: "\<not> isclose y1 1 rtol atol"
    using tol by (auto simp: y1_def isclose_def)
  have again: "fold_coord rtol atol True w =
      (let y1' = (if isclose (frac w) 1 rtol atol then 0 else frac w);
           y2' = (if 1 / 2 < y1' then y1' - 1 else y1')
       in if isclose y2' (1 / 2) rtol atol then - (1 / 2) else y2')"
    by (simp add: fold_coord_def Let_def)
  show ?thesis
  proof (cases "isclose y2 (1 / 2) rtol atol")
    case True
    then have wv: "w = - (1 / 2)" by (simp add: w_def)
    have fw: "frac w = 1 / 2" by (simp add: wv frac_def)
    from True have t2: "0 \<le> atol + rtol * (1 / 2)" by (simp add: isclose_def)
    have "\<not> isclose (1 / 2) 1 rtol atol" using tol by (simp add: isclose_def)
    moreover have "isclose (1 / 2) (1 / 2) rtol atol" using t2 by (simp add: isclose_def)
    ultimately have "fold_coord rtol atol True w = - (1 / 2)"
      by (simp add: again fw)
    then show ?thesis by (simp add: w wv)
  next
    case False
    then have wv: "w = y2" by (simp add: w_def)
    have fw: "frac w = y1"
      using y1 frac_unit [of y1] frac_shift [of y1] by (auto simp: wv y2_def)
    have "fold_coord rtol atol True w = y2"
      using nc False unfolding y2_def by (auto simp: again fw Let_def)
    then show ?thesis by (simp add: w wv)
  qed
qed

lemma fold_coord_idem:
  "centered \<longrightarrow> atol + rtol < 1 / 2 \<Longrightarrow>
   fold_coord rtol atol centered (fold_coord rtol atol centered x) =
   fold_coord rtol atol centered x"
  by (cases centered) (simp_all add: fold_coord_plain_idem fold_coord_centered_idem)

lemma vmap_fold_idem:
  "centered \<longrightarrow> atol + rtol < 1 / 2 \<Longrightarrow>
   vmap (fold_coord rtol atol centered) (vmap (fold_coord rtol atol centered) v) =
   vmap (fold_coord rtol atol centered) v"
  by (cases v) (simp add: fold_coord_idem)

text \<open>
  C9, as the code has it. \<open>bring_into_cell\<close> always reads its argument as Cartesian. For
  nonsingular lattice vectors, folding the Cartesian result again returns it unchanged;
  in lattice mode the result is in lattice coordinates, and it is the Cartesian image of
  that result which folds back to it. The same holds for lists of points. For a centred
  cell the tolerances must stay below one half.
\<close>

theorem bring_into_cell_refold:
  assumes tol: "centered \<longrightarrow> atol + rtol < 1 / 2" and ns: "det3 rlat \<noteq> 0"
  shows "(\<exists>q. bring_into_cell p rlat rtol atol ''Cart'' centered = Inr q \<and>
            bring_into_cell q rlat rtol atol ''Cart'' centered = Inr q) \<and>
         (\<exists>l. bring_into_cell p rlat rtol atol ''lat'' centered = Inr l \<and>
            bring_into_cell (mat_vec rlat l) rlat rtol atol ''lat'' centered = Inr l) \<and>
         (\<exists>qs. bring_into_cell_list ps rlat rtol atol ''Cart'' centered = Inr qs \<and>
            bring_into_cell_list qs rlat rtol atol ''Cart'' centered = Inr qs) \<and>
         (\<exists>ls. bring_into_cell_list ps rlat rtol atol ''lat'' centered = Inr ls \<and>
            bring_into_cell_list (map (mat_vec rlat) ls) rlat rtol atol ''lat'' centered = Inr ls)"
proof -
  from ns obtain iv where iv: "inv3 rlat = Inr iv" by (simp add: inv3_def)
  have undo: "\<And>v. mat_vec iv (mat_vec rlat v) = v" by (rule inv3_mat_vec [OF iv])
  have idem: "\<And>v. vmap (fold_coord rtol atol centered) (vmap (fold_coord rtol atol centered) v)
      = vmap (fold_coord rtol atol centered) v"
    by (rule vmap_fold_idem [OF tol])
  show ?thesis
    by (simp add: bring_into_cell_def bring_into_cell_list_def iv undo idem o_def)
qed

theorem bring_into_cell_refold_witness:
  "(1 / 10 ^ 8 + 1 / 10 ^ 5 :: real) < 1 / 2 \<and>
   det3 (((2, 0, 0), (0, 2, 0), (0, 0, 2)) :: real mat3) \<noteq> 0 \<and>
   (\<exists>q. bring_into_cell (3, 1, - 1) ((2, 0, 0), (0, 2, 0), (0, 0, 2)) (1 / 10 ^ 5) (1 / 10 ^ 8)
           ''Cart'' True = Inr q \<and>
        bring_into_cell q ((2, 0, 0), (0, 2, 0), (0, 0, 2)) (1 / 10 ^ 5) (1 / 10 ^ 8)
           ''Cart'' True = Inr q)"
  using bring_into_cell_refold [of True "1 / 10 ^ 8" "1 / 10 ^ 5"
      "((2, 0, 0), (0, 2, 0), (0, 0, 2))" "(3, 1, - 1)" "[]"]
  by simp

text \<open>
  In lattice mode the function is not idempotent on its own output: with lattice vectors
  of length 2, the point \<open>(1, 0, 0)\<close> folds to \<open>(1/2, 0, 0)\<close>, which read as a Cartesian
  point folds to \<open>(1/4, 0, 0)\<close>.
\<close>

theorem bring_into_cell_lat_not_idempotent:
  "bring_into_cell (1, 0, 0) ((2, 0, 0), (0, 2, 0), (0, 0, 2)) (1 / 10 ^ 5) (1 / 10 ^ 8)
     ''lat'' False = Inr (1 / 2, 0, 0) \<and>
   bring_into_cell (1 / 2, 0, 0) ((2, 0, 0), (0, 2, 0), (0, 0, 2)) (1 / 10 ^ 5) (1 / 10 ^ 8)
     ''lat'' False = Inr (1 / 4, 0, 0)"
  by (simp add: bring_into_cell_def inv3_def fold_coord_def isclose_def frac_def)

subsection \<open>Primitive translation vectors\<close>

lemma two_smallest_of_three:
  "sum_list (take 2 (sort [x, y, z :: real])) = x + y + z - max x (max y z)"
  by (auto simp: max_def)

lemma Max_of_three: "Max (set [x, y, z :: real]) = max x (max y z)"
  by simp

lemma build_ptvecs_error:
  "build_ptvecs center_type a b c alpha beta gamma = Inl e \<Longrightarrow> e = BadCentering"
  unfolding build_ptvecs_def Let_def by (simp split: if_splits)

text \<open>
  C6, as the code has it. For three angles and three lattice constants, \<open>make_ptvecs\<close>
  raises a linear-dependence error exactly when the sum of the two smallest angles is
  less than the largest or within \<open>numpy.isclose\<close> of it, or when the three angles are
  close to each other and to \<open>2 pi / 3\<close>; the closeness is \<open>|x - y| \<le> 1e-8 + 1e-5 |y|\<close>.
\<close>

theorem make_ptvecs_linear_dependence:
  "(make_ptvecs center_type [a, b, c] [alpha, beta, gamma] = Inl AnglesDependent \<or>
    make_ptvecs center_type [a, b, c] [alpha, beta, gamma] = Inl AnglesAllTwoThirdsPi)
   \<longleftrightarrow>
   (alpha + beta + gamma - max alpha (max beta gamma) < max alpha (max beta gamma) \<or>
    \<bar>alpha + beta + gamma - 2 * max alpha (max beta gamma)\<bar>
      \<le> 1 / 10 ^ 8 + 1 / 10 ^ 5 * \<bar>max alpha (max beta gamma)\<bar> \<or>
    (\<bar>alpha - beta\<bar> \<le> 1 / 10 ^ 8 + 1 / 10 ^ 5 * \<bar>beta\<bar> \<and>
     \<bar>beta - gamma\<bar> \<le> 1 / 10 ^ 8 + 1 / 10 ^ 5 * \<bar>gamma\<bar> \<and>
     \<bar>beta - 2 * pi / 3\<bar> \<le> 1 / 10 ^ 8 + 1 / 10 ^ 5 * \<bar>2 * pi / 3\<bar>))"
proof -
  define s where "s = alpha + beta + gamma - max alpha (max beta gamma)"
  define m where "m = max alpha (max beta gamma)"
  define c1 where "c1 \<longleftrightarrow> s < m \<or> isclose_default s m"
  define c2 where "c2 \<longleftrightarrow> isclose_default alpha beta \<and> isclose_default beta gamma \<and>
     isclose_default beta (2 * pi / 3)"
  define r where "r = build_ptvecs center_type a b c alpha beta gamma"
  have s: "sum_list (take 2 (sort [alpha, beta, gamma])) = s"
    unfolding s_def by (rule two_smallest_of_three)
  have m: "Max (set [alpha, beta, gamma]) = m"
    unfolding m_def by (rule Max_of_three)
  have mk: "make_ptvecs center_type [a, b, c] [alpha, beta, gamma] =
      (if c1 then Inl AnglesDependent else if c2 then Inl AnglesAllTwoThirdsPi else r)"
    unfolding make_ptvecs_def s m c1_def c2_def r_def by simp
  have r: "r \<noteq> Inl AnglesDependent" "r \<noteq> Inl AnglesAllTwoThirdsPi"
    using build_ptvecs_error [of center_type a b c alpha beta gamma] by (auto simp: r_def)
  have sm: "\<bar>s - m\<bar> = \<bar>alpha + beta + gamma - 2 * m\<bar>"
    by (simp add: s_def m_def)
  have c1: "c1 \<longleftrightarrow> s < m \<or> \<bar>alpha + beta + gamma - 2 * m\<bar> \<le> 1 / 10 ^ 8 + 1 / 10 ^ 5 * \<bar>m\<bar>"
    by (simp add: c1_def isclose_default_def isclose_def sm)
  have c2: "c2 \<longleftrightarrow> (\<bar>alpha - beta\<bar> \<le> 1 / 10 ^ 8 + 1 / 10 ^ 5 * \<bar>beta\<bar> \<and>
     \<bar>beta - gamma\<bar> \<le> 1 / 10 ^ 8 + 1 / 10 ^ 5 * \<bar>gamma\<bar> \<and>
     \<bar>beta - 2 * pi / 3\<bar> \<le> 1 / 10 ^ 8 + 1 / 10 ^ 5 * \<bar>2 * pi / 3\<bar>)"
    by (simp add: c2_def isclose_default_def isclose_def)
  have "(make_ptvecs center_type [a, b, c] [alpha, beta, gamma] = Inl AnglesDependent \<or>
    make_ptvecs center_type [a, b, c] [alpha, beta, gamma] = Inl AnglesAllTwoThirdsPi)
    \<longleftrightarrow> c1 \<or> c2"
    using r by (auto simp: mk)
  then show ?thesis
    unfolding c1 c2 s_def m_def by simp
qed

text \<open>
  The angles \<open>1, 1, 1.999999\<close> are rejected although the two smallest sum to more than the
  largest: the test includes the \<open>isclose\<close> tolerance.
\<close>

theorem make_ptvecs_tolerance_rejects:
  "(1999999 / 1000000 :: real) < 1 + 1 \<and>
   make_ptvecs ''prim'' [1, 1, 1] [1, 1, 1999999 / 1000000] = Inl AnglesDependent"
  by (simp add: make_ptvecs_def isclose_default_def isclose_def)

subsection \<open>Hermite normal form\<close>

lemma three_cases: "n < 3 \<Longrightarrow> n = 0 \<or> n = 1 \<or> n = (2::nat)"
  by auto

lemma mat_mul_col_sub:
  assumes "mx < 3" "mn < 3"
  shows "mat_mul S (col_sub B mx mn k) = col_sub (mat_mul S B) mx mn k"
proof -
  obtain s0 s1 s2 s3 s4 s5 s6 s7 s8 where S: "S = ((s0, s1, s2), (s3, s4, s5), (s6, s7, s8))"
    by (metis prod_cases3)
  obtain b0 b1 b2 b3 b4 b5 b6 b7 b8 where B: "B = ((b0, b1, b2), (b3, b4, b5), (b6, b7, b8))"
    by (metis prod_cases3)
  from assms [THEN three_cases] show ?thesis
    unfolding S B col_sub_def
    by (elim disjE) (simp_all add: algebra_simps)
qed

lemma det_col_sub:
  assumes "mx < 3" "mn < 3" "mx \<noteq> mn"
  shows "det3 (col_sub B mx mn k) = det3 B"
proof -
  obtain b0 b1 b2 b3 b4 b5 b6 b7 b8 where B: "B = ((b0, b1, b2), (b3, b4, b5), (b6, b7, b8))"
    by (metis prod_cases3)
  from assms(1,2) [THEN three_cases] assms(3) show ?thesis
    unfolding B col_sub_def
    by (elim disjE) (simp_all add: algebra_simps)
qed

lemma mat_mul_col_swap:
  assumes "i < 3" "j < 3"
  shows "mat_mul S (col_swap B i j) = col_swap (mat_mul S B) i j"
proof -
  obtain s0 s1 s2 s3 s4 s5 s6 s7 s8 where S: "S = ((s0, s1, s2), (s3, s4, s5), (s6, s7, s8))"
    by (metis prod_cases3)
  obtain b0 b1 b2 b3 b4 b5 b6 b7 b8 where B: "B = ((b0, b1, b2), (b3, b4, b5), (b6, b7, b8))"
    by (metis prod_cases3)
  from assms [THEN three_cases] show ?thesis
    unfolding S B col_swap_def
    by (elim disjE) (simp_all add: algebra_simps)
qed

lemma det_col_swap:
  assumes "i < 3" "j < 3"
  shows "\<bar>det3 (col_swap B i j)\<bar> = \<bar>det3 B\<bar>"
proof -
  obtain b0 b1 b2 b3 b4 b5 b6 b7 b8 where B: "B = ((b0, b1, b2), (b3, b4, b5), (b6, b7, b8))"
    by (metis prod_cases3)
  have neg: "\<And>x y :: int. x = - y \<Longrightarrow> \<bar>x\<bar> = \<bar>y\<bar>" by simp
  from assms [THEN three_cases] show ?thesis
    unfolding B col_swap_def
    by (elim disjE) (simp_all, (rule neg, simp add: algebra_simps)+)
qed

lemma mat_mul_col_neg:
  assumes "j < 3"
  shows "mat_mul S (col_neg B j) = col_neg (mat_mul S B) j"
proof -
  obtain s0 s1 s2 s3 s4 s5 s6 s7 s8 where S: "S = ((s0, s1, s2), (s3, s4, s5), (s6, s7, s8))"
    by (metis prod_cases3)
  obtain b0 b1 b2 b3 b4 b5 b6 b7 b8 where B: "B = ((b0, b1, b2), (b3, b4, b5), (b6, b7, b8))"
    by (metis prod_cases3)
  from assms [THEN three_cases] show ?thesis
    unfolding S B col_neg_def
    by (elim disjE) (simp_all add: algebra_simps)
qed

lemma det_col_neg:
  assumes "j < 3"
  shows "det3 (col_neg B j) = - det3 B"
proof -
  obtain b0 b1 b2 b3 b4 b5 b6 b7 b8 where B: "B = ((b0, b1, b2), (b3, b4, b5), (b6, b7, b8))"
    by (metis prod_cases3)
  from assms [THEN three_cases] show ?thesis
    unfolding B col_neg_def
    by (elim disjE) (simp_all add: algebra_simps)
qed

lemma det_mat_mul: "det3 (mat_mul A B) = det3 A * det3 (B :: int mat3)"
proof -
  obtain s0 s1 s2 s3 s4 s5 s6 s7 s8 where A: "A = ((s0, s1, s2), (s3, s4, s5), (s6, s7, s8))"
    by (metis prod_cases3)
  obtain b0 b1 b2 b3 b4 b5 b6 b7 b8 where B: "B = ((b0, b1, b2), (b3, b4, b5), (b6, b7, b8))"
    by (metis prod_cases3)
  show ?thesis unfolding A B by (simp add: algebra_simps)
qed

definition hinv :: "int mat3 \<Rightarrow> int mat3 \<Rightarrow> int mat3 \<Rightarrow> bool" where
  "hinv S H B \<longleftrightarrow> H = mat_mul S B \<and> \<bar>det3 B\<bar> = 1"

lemma isclose_refl: "0 \<le> rtol \<Longrightarrow> 0 \<le> atol \<Longrightarrow> isclose x x rtol atol"
  by (simp add: isclose_def)

lemma transform_ok_refl: "transform_ok S (mat_mul S B) B"
proof -
  obtain a b c d e f g h i where M: "mat_mul S B = ((a, b, c), (d, e, f), (g, h, i))"
    by (metis prod_cases3)
  show ?thesis
    unfolding transform_ok_def M of_int_mat_def by (simp add: isclose_refl)
qed

lemma hinv_col_sub:
  assumes "hinv S H B" "mx < 3" "mn < 3" "mx \<noteq> mn"
  shows "hinv S (col_sub H mx mn k) (col_sub B mx mn k)"
  using assms by (simp add: hinv_def mat_mul_col_sub det_col_sub)

lemma hinv_col_swap:
  assumes "hinv S H B" "i < 3" "j < 3"
  shows "hinv S (col_swap H i j) (col_swap B i j)"
  using assms by (simp add: hinv_def mat_mul_col_swap det_col_swap)

lemma hinv_col_neg:
  assumes "hinv S H B" "j < 3"
  shows "hinv S (col_neg H j) (col_neg B j)"
  using assms by (simp add: hinv_def mat_mul_col_neg det_col_neg)

lemma hinv_ok: "hinv S H B \<Longrightarrow> transform_ok S H B"
  by (simp add: hinv_def transform_ok_refl)

lemma hnf_row0_correct:
  "hinv S H B \<Longrightarrow>
   \<exists>H' B'. hnf_row0 S H B = Inr (H', B') \<and> hinv S H' B' \<and>
            count_nonzero (vlist (vget H' 0)) \<le> 1"
proof (induction S H B rule: hnf_row0.induct)
  case (1 S H B)
  show ?case
  proof (cases "1 < count_nonzero (vlist (vget H 0))")
    case False
    with "1.prems" show ?thesis by (simp add: hnf_row0.simps [of S H B])
  next
    case True
    from get_minmax_indices_two [OF True] obtain mi mx where
      g: "get_minmax_indices (vget H 0) = Inr (mi, mx)" and
      p: "mi < 3" "mx < 3" "mi \<noteq> mx" "vget (vget H 0) mi \<noteq> 0"
      by blast
    from p(4) obtain k where k: "tdiv (entry H 0 mx) (entry H 0 mi) = Inr k"
      by (simp add: tdiv_def entry_def)
    have inv': "hinv S (col_sub H mx mi k) (col_sub B mx mi k)"
      using "1.prems" p by (simp add: hinv_col_sub)
    then have ok: "\<not> \<not> transform_ok S (col_sub H mx mi k) (col_sub B mx mi k)"
      by (simp add: hinv_ok)
    from "1.IH" [OF True g refl k ok inv'] obtain H' B' where
      r: "hnf_row0 S (col_sub H mx mi k) (col_sub B mx mi k) = Inr (H', B')"
      "hinv S H' B'" "count_nonzero (vlist (vget H' 0)) \<le> 1" by blast
    have "hnf_row0 S H B = hnf_row0 S (col_sub H mx mi k) (col_sub B mx mi k)"
      using True g k ok by (simp add: hnf_row0.simps [of S H B])
    with r show ?thesis by simp
  qed
qed


lemma hinv_det: "hinv S H B \<Longrightarrow> det3 S \<noteq> 0 \<Longrightarrow> det3 H \<noteq> 0"
  by (auto simp: hinv_def det_mat_mul)

lemma hnf_stage1_correct:
  assumes ns: "det3 S \<noteq> 0"
  shows "\<exists>H B. hnf_stage1 S = Inr (H, B) \<and> hinv S H B \<and>
           0 < entry H 0 0 \<and> entry H 0 1 = 0 \<and> entry H 0 2 = 0"
proof -
  have "hinv S S identity3"
  proof -
    obtain s0 s1 s2 s3 s4 s5 s6 s7 s8 where S: "S = ((s0, s1, s2), (s3, s4, s5), (s6, s7, s8))"
      by (metis prod_cases3)
    show ?thesis unfolding S by (simp add: hinv_def identity3_def)
  qed
  from hnf_row0_correct [OF this] obtain H B where
    loop: "hnf_row0 S S identity3 = Inr (H, B)" and inv: "hinv S H B"
    and cnt: "count_nonzero (vlist (vget H 0)) \<le> 1" by blast
  obtain a b c r1 r2 where H: "H = ((a, b, c), r1, r2)" by (metis prod_cases3)
  obtain d e f where r1: "r1 = (d, e, f)" by (metis prod_cases3)
  obtain g h i where r2: "r2 = (g, h, i)" by (metis prod_cases3)
  from hinv_det [OF inv ns] have nz: "a \<noteq> 0 \<or> b \<noteq> 0 \<or> c \<noteq> 0"
    unfolding H r1 r2 by auto
  from cnt have one: "(a = 0 \<and> b = 0) \<or> (a = 0 \<and> c = 0) \<or> (b = 0 \<and> c = 0)"
    unfolding H by (simp add: count_nonzero_def split: if_splits)
  define HB1 where "HB1 = (if entry H 0 0 = 0 then swap_column H B 0 else (H, B))"
  define H1 where "H1 = fst HB1"
  define B1 where "B1 = snd HB1"
  have inv1: "hinv S H1 B1"
    unfolding H1_def B1_def HB1_def swap_column_def Let_def
    using inv one nz
    by (auto simp: H hinv_col_swap)
  have row1: "entry H1 0 0 \<noteq> 0 \<and> entry H1 0 1 = 0 \<and> entry H1 0 2 = 0"
    unfolding H1_def HB1_def swap_column_def Let_def
    using one nz
    by (auto simp: H r1 r2 entry_def col_swap_def)
  define HB2 where "HB2 = (if entry H1 0 0 < 0 then (col_neg H1 0, col_neg B1 0) else (H1, B1))"
  define H2 where "H2 = fst HB2"
  define B2 where "B2 = snd HB2"
  have inv2: "hinv S H2 B2"
    unfolding H2_def B2_def HB2_def using inv1 by (simp add: hinv_col_neg)
  obtain a1 b1 c1 r11 r12 where H1: "H1 = ((a1, b1, c1), r11, r12)" by (metis prod_cases3)
  have row2: "0 < entry H2 0 0 \<and> entry H2 0 1 = 0 \<and> entry H2 0 2 = 0"
    unfolding H2_def HB2_def using row1
    by (cases r11; cases r12) (auto simp: H1 entry_def col_neg_def)
  then have cnt2: "\<not> 1 < count_nonzero (vlist (vget H2 0))"
    by (cases H2 rule: prod_cases3; cases "vget H2 0" rule: prod_cases3)
       (simp add: entry_def count_nonzero_def)
  have "hnf_stage1 S = Inr (H2, B2)"
    using cnt2 hinv_ok [OF inv2]
    unfolding hnf_stage1_def loop H2_def B2_def HB2_def H1_def B1_def HB1_def
    by (simp add: case_prod_beta Let_def split: if_splits)
  with inv2 row2 show ?thesis by blast
qed


lemma vget_vset: "i < 3 \<Longrightarrow> j < 3 \<Longrightarrow> vget (vset r i x) j = (if j = i then x else vget r j)"
  by (cases r) auto

lemma vget_vmap: "vget (vmap f M) i = f (vget M i)"
  by (cases M) simp

lemma entry_col_sub:
  "j < 3 \<Longrightarrow> mx < 3 \<Longrightarrow>
   entry (col_sub H mx mn k) i j =
     (if j = mx then entry H i mx - k * entry H i mn else entry H i j)"
  by (simp add: entry_def col_sub_def vget_vmap vget_vset)

lemma entry_col_swap:
  "j < 3 \<Longrightarrow> a < 3 \<Longrightarrow> b < 3 \<Longrightarrow>
   entry (col_swap H a b) i j =
     (if j = b then entry H i a else if j = a then entry H i b else entry H i j)"
  by (simp add: entry_def col_swap_def vget_vmap vget_vset)

lemma entry_col_neg:
  "j < 3 \<Longrightarrow> c < 3 \<Longrightarrow>
   entry (col_neg H c) i j = (if j = c then - entry H i c else entry H i j)"
  by (simp add: entry_def col_neg_def vget_vmap vget_vset)

lemma hnf_elim12_correct:
  "hinv S H B \<Longrightarrow> entry H 0 1 = 0 \<Longrightarrow> entry H 0 2 = 0 \<Longrightarrow>
   \<exists>H' B'. hnf_elim12 S H B = Inr (H', B') \<and> hinv S H' B' \<and>
      entry H' 0 0 = entry H 0 0 \<and> entry H' 0 1 = 0 \<and> entry H' 0 2 = 0 \<and> entry H' 1 2 = 0"
proof (induction S H B rule: hnf_elim12.induct)
  case (1 S H B)
  note inv = "1.prems"(1) and z1 = "1.prems"(2) and z2 = "1.prems"(3)
  show ?case
  proof (cases "entry H 1 2 = 0")
    case True
    with inv z1 z2 show ?thesis by (simp add: hnf_elim12.simps [of S H B])
  next
    case nz: False
    show ?thesis
    proof (cases "entry H 1 1 = 0")
      case True
      have "hnf_elim12 S H B = Inr (col_swap H 1 2, col_swap B 1 2)"
        using nz True by (simp add: hnf_elim12.simps [of S H B] entry_col_swap)
      moreover have "hinv S (col_swap H 1 2) (col_swap B 1 2)"
        using inv by (simp add: hinv_col_swap)
      ultimately show ?thesis using z1 z2 True by (simp add: entry_col_swap)
    next
      case d: False
      define mx :: nat where "mx = (if \<bar>entry H 1 2\<bar> < \<bar>entry H 1 1\<bar> then 1 else 2)"
      define mn :: nat where "mn = (if \<bar>entry H 1 2\<bar> < \<bar>entry H 1 1\<bar> then 2 else 1)"
      have idx: "mx < 3" "mn < 3" "mx \<noteq> mn" "mx \<noteq> 0" "entry H 1 mn \<noteq> 0"
        using nz d by (auto simp: mx_def mn_def)
      then obtain k where k: "tdiv (entry H 1 mx) (entry H 1 mn) = Inr k"
        by (simp add: tdiv_def)
      have inv': "hinv S (col_sub H mx mn k) (col_sub B mx mn k)"
        using inv idx by (simp add: hinv_col_sub)
      then have ok: "\<not> \<not> transform_ok S (col_sub H mx mn k) (col_sub B mx mn k)"
        by (simp add: hinv_ok)
      have z0: "entry H 0 mx = 0" "entry H 0 mn = 0"
        using z1 z2 by (auto simp: mx_def mn_def)
      have e: "entry (col_sub H mx mn k) 0 0 = entry H 0 0"
        "entry (col_sub H mx mn k) 0 1 = 0" "entry (col_sub H mx mn k) 0 2 = 0"
        using idx z0 z1 z2 by (simp_all add: entry_col_sub)
      have unf: "hnf_elim12 S H B = hnf_elim12 S (col_sub H mx mn k) (col_sub B mx mn k)"
      proof (cases "\<bar>entry H 1 2\<bar> < \<bar>entry H 1 1\<bar>")
        case True
        then have "mx = 1" "mn = 2" by (simp_all add: mx_def mn_def)
        with nz d k ok True show ?thesis
          by (simp add: hnf_elim12.simps [of S H B] Let_def)
      next
        case False
        then have "mx = 2" "mn = 1" by (simp_all add: mx_def mn_def)
        with nz d k ok False show ?thesis
          by (simp add: hnf_elim12.simps [of S H B] Let_def)
      qed
      have h1: "H = (if entry H 1 1 = 0 then col_swap H 1 2 else H)"
        and b1: "B = (if entry H 1 1 = 0 then col_swap B 1 2 else B)"
        and d': "\<not> (entry H 1 1 = 0 \<and> entry H 1 2 = 0)"
        using d by simp_all
      have "\<exists>H' B'. hnf_elim12 S (col_sub H mx mn k) (col_sub B mx mn k) = Inr (H', B') \<and>
          hinv S H' B' \<and> entry H' 0 0 = entry (col_sub H mx mn k) 0 0 \<and>
          entry H' 0 1 = 0 \<and> entry H' 0 2 = 0 \<and> entry H' 1 2 = 0"
        by (rule "1.IH" [OF nz h1 b1 d' mx_def mn_def k ok inv' e(2) e(3)])
      then show ?thesis by (simp add: unf e)
    qed
  qed
qed


lemma det_lower:
  "entry H 0 1 = 0 \<Longrightarrow> entry H 0 2 = 0 \<Longrightarrow> entry H 1 2 = 0 \<Longrightarrow>
   det3 H = entry H 0 0 * entry H 1 1 * entry (H :: int mat3) 2 2"
proof -
  obtain a b c d e f g h i where H: "H = ((a, b, c), (d, e, f), (g, h, i))"
    by (metis prod_cases3)
  show "entry H 0 1 = 0 \<Longrightarrow> entry H 0 2 = 0 \<Longrightarrow> entry H 1 2 = 0 \<Longrightarrow>
   det3 H = entry H 0 0 * entry H 1 1 * entry (H :: int mat3) 2 2"
    unfolding H by (simp add: entry_def)
qed

lemma hnf_stage2_correct:
  assumes ns: "det3 S \<noteq> 0" and inv0: "hinv S H0 B0"
    and p0: "0 < entry H0 0 0" "entry H0 0 1 = 0" "entry H0 0 2 = 0"
  shows "\<exists>H B. hnf_stage2 S H0 B0 = Inr (H, B) \<and> hinv S H B \<and>
           0 < entry H 0 0 \<and> entry H 0 1 = 0 \<and> entry H 0 2 = 0 \<and> entry H 1 2 = 0 \<and>
           0 < entry H 1 1 \<and> 0 < entry H 2 2"
proof -
  from hnf_elim12_correct [OF inv0 p0(2,3)] obtain H B where
    loop: "hnf_elim12 S H0 B0 = Inr (H, B)" and inv: "hinv S H B"
    and e: "entry H 0 0 = entry H0 0 0" "entry H 0 1 = 0" "entry H 0 2 = 0" "entry H 1 2 = 0"
    by blast
  from hinv_det [OF inv ns] det_lower [OF e(2,3,4)]
  have d: "entry H 1 1 \<noteq> 0" "entry H 2 2 \<noteq> 0" by auto
  define H2 where "H2 = (if entry H 1 1 < 0 then col_neg H 1 else H)"
  define B2 where "B2 = (if entry H 1 1 < 0 then col_neg B 1 else B)"
  define H3 where "H3 = (if entry H2 2 2 < 0 then col_neg H2 2 else H2)"
  define B3 where "B3 = (if entry H2 2 2 < 0 then col_neg B2 2 else B2)"
  have inv2: "hinv S H2 B2" using inv by (simp add: H2_def B2_def hinv_col_neg)
  then have inv3: "hinv S H3 B3" by (simp add: H3_def B3_def hinv_col_neg)
  have e2: "entry H2 0 0 = entry H 0 0" "entry H2 0 1 = 0" "entry H2 0 2 = 0" "entry H2 1 2 = 0"
    "0 < entry H2 1 1" "entry H2 2 2 = entry H 2 2"
    using e d by (auto simp: H2_def entry_col_neg)
  have e3: "entry H3 0 0 = entry H 0 0" "entry H3 0 1 = 0" "entry H3 0 2 = 0" "entry H3 1 2 = 0"
    "0 < entry H3 1 1" "0 < entry H3 2 2"
    using e2 d by (auto simp: H3_def entry_col_neg)
  have h1: "(if entry H 1 1 = 0 then col_swap H 1 2 else H) = H" using d by simp
  have "hnf_stage2 S H0 B0 =
      (if entry H2 1 2 \<noteq> 0 then Inl LastNotZeroed
       else if \<not> transform_ok S H2 B2 then Inl TransformFailed
       else if count_nonzero [entry H3 0 1, entry H3 0 2, entry H3 1 2] \<noteq> 0
            then Inl NotLowerTriangular
            else if \<not> transform_ok S H3 B3 then Inl TransformFailed
            else Inr (H3, B3))"
    unfolding hnf_stage2_def loop sum.case prod.case Let_def h1
      H2_def [symmetric] B2_def [symmetric] H3_def [symmetric] B3_def [symmetric] ..
  then have "hnf_stage2 S H0 B0 = Inr (H3, B3)"
    using e2(4) e3(2,3,4) hinv_ok [OF inv2] hinv_ok [OF inv3]
    by (simp add: count_nonzero_def)
  with inv3 e3 e(1) p0(1) show ?thesis by auto
qed


lemma vset_vget_same: "vset r j (vget r j) = r"
  by (cases r) auto

lemma col_sub_zero: "col_sub M j i 0 = M"
  by (cases M) (simp add: col_sub_def vset_vget_same)

lemma vset_twice: "vset (vset r j x) j y = vset r j y"
  by (cases r) auto

lemma col_sub_add:
  assumes "i < 3" "j < 3" "i \<noteq> j"
  shows "col_sub (col_sub M j i a) j i b = col_sub M j i (a + b)"
  using assms
  by (cases M) (simp add: col_sub_def vget_vset vset_twice algebra_simps)

lemma hnf_reduce_correct:
  assumes idx: "i < 3" "j < 3" "i \<noteq> j"
  shows "0 < entry H i i \<Longrightarrow>
    \<exists>q. hnf_reduce i j H B = Some (col_sub H j i q, col_sub B j i q) \<and>
        0 \<le> entry H i j - q * entry H i i \<and> entry H i j - q * entry H i i < entry H i i"
proof (induction "if 0 \<le> entry H i j \<and> entry H i j < entry H i i then 0
                  else nat \<bar>entry H i j\<bar> + 1" arbitrary: H B rule: less_induct)
  case less
  define x where "x = entry H i j"
  define d where "d = entry H i i"
  from less.prems have d: "0 < d" by (simp add: d_def)
  show ?case
  proof (cases "d \<le> x \<or> x < 0")
    case False
    then have "hnf_reduce i j H B = Some (col_sub H j i 0, col_sub B j i 0)"
      by (subst hnf_reduce.simps) (simp add: x_def d_def col_sub_zero)
    moreover from False have "0 \<le> x - 0 * d \<and> x - 0 * d < d" by simp
    ultimately show ?thesis unfolding x_def d_def by blast
  next
    case True
    define m :: int where "m = (if d \<le> x then 1 else - 1)"
    define H' where "H' = col_sub H j i m"
    define B' where "B' = col_sub B j i m"
    have e: "entry H' i i = d" "entry H' i j = x - m * d"
      using idx by (simp_all add: H'_def entry_col_sub x_def d_def)
    have step: "hnf_reduce i j H B = hnf_reduce i j H' B'"
      using True by (subst hnf_reduce.simps) (simp add: x_def d_def H'_def B'_def m_def)
    have smaller: "(if 0 \<le> entry H' i j \<and> entry H' i j < entry H' i i then 0
                  else nat \<bar>entry H' i j\<bar> + 1)
        < (if 0 \<le> entry H i j \<and> entry H i j < entry H i i then 0
                  else nat \<bar>entry H i j\<bar> + 1)"
      using True d unfolding e unfolding x_def [symmetric] d_def [symmetric] m_def
      by (auto split: if_splits)
    have pos: "0 < entry H' i i" using d e by simp
    from less.hyps [OF smaller pos, of B'] obtain q where
      q: "hnf_reduce i j H' B' = Some (col_sub H' j i q, col_sub B' j i q)"
      "0 \<le> entry H' i j - q * entry H' i i" "entry H' i j - q * entry H' i i < entry H' i i"
      by blast
    have "hnf_reduce i j H B = Some (col_sub H j i (m + q), col_sub B j i (m + q))"
      using q(1) idx by (simp add: step H'_def B'_def col_sub_add)
    moreover have "0 \<le> x - (m + q) * d \<and> x - (m + q) * d < d"
      using q(2,3) unfolding e by (simp add: algebra_simps)
    ultimately show ?thesis unfolding x_def d_def by blast
  qed
qed


lemma hnf_stage3_correct:
  assumes inv: "hinv S H B"
    and sh: "0 < entry H 0 0" "entry H 0 1 = 0" "entry H 0 2 = 0" "entry H 1 2 = 0"
      "0 < entry H 1 1" "0 < entry H 2 2"
  shows "\<exists>H' B'. hnf_stage3 S H B = Some (Inr (H', B')) \<and> hinv S H' B' \<and>
      entry H' 0 1 = 0 \<and> entry H' 0 2 = 0 \<and> entry H' 1 2 = 0 \<and>
      0 < entry H' 0 0 \<and> 0 < entry H' 1 1 \<and> 0 < entry H' 2 2 \<and>
      0 \<le> entry H' 1 0 \<and> entry H' 1 0 < entry H' 1 1 \<and>
      0 \<le> entry H' 2 0 \<and> entry H' 2 0 < entry H' 2 2 \<and>
      0 \<le> entry H' 2 1 \<and> entry H' 2 1 < entry H' 2 2"
proof -
  from hnf_reduce_correct [of 1 0 H B] sh(5) obtain q1 where
    r1: "hnf_reduce 1 0 H B = Some (col_sub H 0 1 q1, col_sub B 0 1 q1)"
    and b1: "0 \<le> entry H 1 0 - q1 * entry H 1 1" "entry H 1 0 - q1 * entry H 1 1 < entry H 1 1"
    by auto
  define H1 where "H1 = col_sub H 0 1 q1"
  define B1 where "B1 = col_sub B 0 1 q1"
  have inv1: "hinv S H1 B1" using inv by (simp add: H1_def B1_def hinv_col_sub)
  have e1: "entry H1 0 0 = entry H 0 0" "entry H1 0 1 = 0" "entry H1 0 2 = 0" "entry H1 1 2 = 0"
    "entry H1 1 1 = entry H 1 1" "entry H1 2 2 = entry H 2 2"
    "entry H1 1 0 = entry H 1 0 - q1 * entry H 1 1"
    using sh by (simp_all add: H1_def entry_col_sub)
  from hnf_reduce_correct [of 2 0 H1 B1] sh(6) e1(6) obtain q2 where
    r2: "hnf_reduce 2 0 H1 B1 = Some (col_sub H1 0 2 q2, col_sub B1 0 2 q2)"
    and b2: "0 \<le> entry H1 2 0 - q2 * entry H1 2 2"
      "entry H1 2 0 - q2 * entry H1 2 2 < entry H1 2 2"
    by auto
  define H2 where "H2 = col_sub H1 0 2 q2"
  define B2 where "B2 = col_sub B1 0 2 q2"
  have inv2: "hinv S H2 B2" using inv1 by (simp add: H2_def B2_def hinv_col_sub)
  have e2: "entry H2 0 0 = entry H 0 0" "entry H2 0 1 = 0" "entry H2 0 2 = 0" "entry H2 1 2 = 0"
    "entry H2 1 1 = entry H 1 1" "entry H2 2 2 = entry H 2 2"
    "entry H2 1 0 = entry H1 1 0" "entry H2 2 0 = entry H1 2 0 - q2 * entry H1 2 2"
    using e1 by (simp_all add: H2_def entry_col_sub)
  from hnf_reduce_correct [of 2 1 H2 B2] sh(6) e2(6) obtain q3 where
    r3: "hnf_reduce 2 1 H2 B2 = Some (col_sub H2 1 2 q3, col_sub B2 1 2 q3)"
    and b3: "0 \<le> entry H2 2 1 - q3 * entry H2 2 2"
      "entry H2 2 1 - q3 * entry H2 2 2 < entry H2 2 2"
    by auto
  define H3 where "H3 = col_sub H2 1 2 q3"
  define B3 where "B3 = col_sub B2 1 2 q3"
  have inv3: "hinv S H3 B3" using inv2 by (simp add: H3_def B3_def hinv_col_sub)
  have e3: "entry H3 0 0 = entry H 0 0" "entry H3 0 1 = 0" "entry H3 0 2 = 0" "entry H3 1 2 = 0"
    "entry H3 1 1 = entry H 1 1" "entry H3 2 2 = entry H 2 2"
    "entry H3 1 0 = entry H1 1 0" "entry H3 2 0 = entry H2 2 0"
    "entry H3 2 1 = entry H2 2 1 - q3 * entry H2 2 2"
    using e2 by (simp_all add: H3_def entry_col_sub)
  have props: "entry H3 0 1 = 0 \<and> entry H3 0 2 = 0 \<and> entry H3 1 2 = 0 \<and>
      0 < entry H3 0 0 \<and> 0 < entry H3 1 1 \<and> 0 < entry H3 2 2 \<and>
      0 \<le> entry H3 1 0 \<and> entry H3 1 0 < entry H3 1 1 \<and>
      0 \<le> entry H3 2 0 \<and> entry H3 2 0 < entry H3 2 2 \<and>
      0 \<le> entry H3 2 1 \<and> entry H3 2 1 < entry H3 2 2"
    using sh b1 b2 b3 e1 e2 e3 by simp
  then have "hnf_final_checks S H3 B3 = Inr (H3, B3)"
    using hinv_ok [OF inv3] by (simp add: hnf_final_checks_def count_nonzero_def)
  then have "hnf_stage3 S H B = Some (Inr (H3, B3))"
    unfolding hnf_stage3_def r1 option.case prod.case H1_def [symmetric] B1_def [symmetric]
      r2 H2_def [symmetric] B2_def [symmetric] r3 H3_def [symmetric] B3_def [symmetric]
    by simp
  with inv3 props show ?thesis by blast
qed

text \<open>
  What the routine does on a matrix whose exact determinant is not zero, when the
  floating-point determinant is not zero either: it returns a pair \<open>(H, B)\<close> with
  \<open>S B = H\<close>, \<open>H\<close> lower triangular with positive diagonal, every entry below the diagonal
  non-negative and less than the diagonal entry of its row, and \<open>|det B| = 1\<close>. None of
  the internal checks fires and every loop stops. The singular-matrix error is raised
  when the floating-point determinant is 0.
\<close>

theorem HermiteNormalForm_nonsingular:
  "(det3 S \<noteq> 0 \<and> linalg_det S \<noteq> 0 \<longrightarrow>
      (\<exists>H B. HermiteNormalForm linalg_det S = Some (Inr (H, B)) \<and>
         mat_mul S B = H \<and> \<bar>det3 B\<bar> = 1 \<and>
         entry H 0 1 = 0 \<and> entry H 0 2 = 0 \<and> entry H 1 2 = 0 \<and>
         0 < entry H 0 0 \<and> 0 < entry H 1 1 \<and> 0 < entry H 2 2 \<and>
         0 \<le> entry H 1 0 \<and> entry H 1 0 < entry H 1 1 \<and>
         0 \<le> entry H 2 0 \<and> entry H 2 0 < entry H 2 2 \<and>
         0 \<le> entry H 2 1 \<and> entry H 2 1 < entry H 2 2)) \<and>
   (linalg_det S = 0 \<longrightarrow> HermiteNormalForm linalg_det S = Some (Inl SingularMatrix))"
proof (intro conjI impI)
  assume "det3 S \<noteq> 0 \<and> linalg_det S \<noteq> 0"
  then have ns: "det3 S \<noteq> 0" and fl: "linalg_det S \<noteq> 0" by simp_all
  from hnf_stage1_correct [OF ns] obtain H1 B1 where
    s1: "hnf_stage1 S = Inr (H1, B1)" "hinv S H1 B1"
    "0 < entry H1 0 0" "entry H1 0 1 = 0" "entry H1 0 2 = 0" by blast
  from hnf_stage2_correct [OF ns s1(2-5)] obtain H2 B2 where
    s2: "hnf_stage2 S H1 B1 = Inr (H2, B2)" "hinv S H2 B2"
    "0 < entry H2 0 0" "entry H2 0 1 = 0" "entry H2 0 2 = 0" "entry H2 1 2 = 0"
    "0 < entry H2 1 1" "0 < entry H2 2 2" by blast
  from hnf_stage3_correct [OF s2(2-8)] obtain H B where
    s3: "hnf_stage3 S H2 B2 = Some (Inr (H, B))" "hinv S H B"
    and sh: "entry H 0 1 = 0 \<and> entry H 0 2 = 0 \<and> entry H 1 2 = 0 \<and>
      0 < entry H 0 0 \<and> 0 < entry H 1 1 \<and> 0 < entry H 2 2 \<and>
      0 \<le> entry H 1 0 \<and> entry H 1 0 < entry H 1 1 \<and>
      0 \<le> entry H 2 0 \<and> entry H 2 0 < entry H 2 2 \<and>
      0 \<le> entry H 2 1 \<and> entry H 2 1 < entry H 2 2" by blast
  have "HermiteNormalForm linalg_det S = Some (Inr (H, B))"
    using fl by (simp add: HermiteNormalForm_def s1(1) s2(1) s3(1))
  with s3(2) sh
  show "\<exists>H B. HermiteNormalForm linalg_det S = Some (Inr (H, B)) \<and>
         mat_mul S B = H \<and> \<bar>det3 B\<bar> = 1 \<and>
         entry H 0 1 = 0 \<and> entry H 0 2 = 0 \<and> entry H 1 2 = 0 \<and>
         0 < entry H 0 0 \<and> 0 < entry H 1 1 \<and> 0 < entry H 2 2 \<and>
         0 \<le> entry H 1 0 \<and> entry H 1 0 < entry H 1 1 \<and>
         0 \<le> entry H 2 0 \<and> entry H 2 0 < entry H 2 2 \<and>
         0 \<le> entry H 2 1 \<and> entry H 2 1 < entry H 2 2"
    unfolding hinv_def by blast
next
  assume "linalg_det S = 0"
  then show "HermiteNormalForm linalg_det S = Some (Inl SingularMatrix)"
    by (simp add: HermiteNormalForm_def)
qed

theorem HermiteNormalForm_nonsingular_witness:
  "det3 (((2, 1, 0), (0, 3, 1), (1, 0, 4)) :: int mat3) \<noteq> 0 \<and>
   (\<exists>H B. HermiteNormalForm (\<lambda>S. of_int (det3 S)) ((2, 1, 0), (0, 3, 1), (1, 0, 4)) =
           Some (Inr (H, B)) \<and>
         mat_mul ((2, 1, 0), (0, 3, 1), (1, 0, 4)) B = H \<and> \<bar>det3 B\<bar> = 1 \<and>
         entry H 0 1 = 0 \<and> entry H 0 2 = 0 \<and> entry H 1 2 = 0 \<and>
         0 < entry H 0 0 \<and> 0 < entry H 1 1 \<and> 0 < entry H 2 2 \<and>
         0 \<le> entry H 1 0 \<and> entry H 1 0 < entry H 1 1 \<and>
         0 \<le> entry H 2 0 \<and> entry H 2 0 < entry H 2 2 \<and>
         0 \<le> entry H 2 1 \<and> entry H 2 1 < entry H 2 2)"
  using HermiteNormalForm_nonsingular [of "((2, 1, 0), (0, 3, 1), (1, 0, 4))"
      "\<lambda>S. of_int (det3 S)"]
  by simp

text \<open>
  A loop of the last part never ends when it starts on a diagonal entry that is zero:
  the column it subtracts has a zero in row \<open>i\<close>, so the entry it tests stays what it is.
\<close>

lemma hnf_reduce_diverges:
  assumes "entry H i i = 0" "i < 3" "j < 3" "i \<noteq> j"
  shows "hnf_reduce i j H B = None"
proof (rule ccontr)
  assume "hnf_reduce i j H B \<noteq> None"
  then obtain y where y: "hnf_reduce i j H B = Some y" by auto
  have "entry H i i \<noteq> 0 \<or> \<not> i < 3 \<or> \<not> j < 3 \<or> i = j"
  proof (rule hnf_reduce.raw_induct
      [where P = "\<lambda>i j H B y. entry H i i \<noteq> 0 \<or> \<not> i < 3 \<or> \<not> j < 3 \<or> i = j", OF _ y])
    fix f :: "nat \<Rightarrow> nat \<Rightarrow> int mat3 \<Rightarrow> int mat3 \<Rightarrow> (int mat3 \<times> int mat3) option"
    fix i j H B y
    assume IH: "\<And>i j H B y. f i j H B = Some y \<Longrightarrow>
        entry H i i \<noteq> 0 \<or> \<not> i < 3 \<or> \<not> j < 3 \<or> i = j"
    assume st: "(if entry H i i \<le> entry H i j \<or> entry H i j < 0
      then f i j (col_sub H j i (if entry H i i \<le> entry H i j then 1 else - 1))
            (col_sub B j i (if entry H i i \<le> entry H i j then 1 else - 1))
      else Some (H, B)) = Some y"
    show "entry H i i \<noteq> 0 \<or> \<not> i < 3 \<or> \<not> j < 3 \<or> i = j"
    proof (rule ccontr)
      assume "\<not> ?thesis"
      then have h: "entry H i i = 0" "i < 3" "j < 3" "i \<noteq> j" by auto
      have c: "entry H i i \<le> entry H i j \<or> entry H i j < 0" using h(1) by linarith
      let ?c = "if entry H i i \<le> entry H i j then 1 else - 1 :: int"
      from st c have "f i j (col_sub H j i ?c) (col_sub B j i ?c) = Some y"
        by (simp only: if_True)
      from IH [OF this] h
      show False by (simp add: entry_col_sub)
    qed
  qed
  with assms show False by simp
qed

text \<open>
  The routine on the singular matrix with rows \<open>(1, 2, 3)\<close>, \<open>(4, 5, 6)\<close>, \<open>(7, 8, 9)\<close>, once the
  determinant test has let it through, part by part.
\<close>

lemma hnf_stage1_123:
  "hnf_stage1 ((1, 2, 3), (4, 5, 6), (7, 8, 9)) =
     Inr (((1, 0, 0), (4, - 3, - 6), (7, - 6, - 12)), ((1, - 2, - 3), (0, 1, 0), (0, 0, 1)))"
  by (simp add: hnf_stage1_def hnf_row0.simps identity3_def get_minmax_indices_def min_scan_def
      first_nonzero_def count_nonzero_def tdiv_def Let_def col_sub_def col_swap_def col_neg_def
      transform_ok_def entry_def swap_column_def of_int_mat_def isclose_def enumerate_eq_zip)

lemma hnf_stage2_123:
  "hnf_stage2 ((1, 2, 3), (4, 5, 6), (7, 8, 9))
       ((1, 0, 0), (4, - 3, - 6), (7, - 6, - 12)) ((1, - 2, - 3), (0, 1, 0), (0, 0, 1)) =
     Inr (((1, 0, 0), (4, 3, 0), (7, 6, 0)), ((1, 2, 1), (0, - 1, - 2), (0, 0, 1)))"
  by (simp add: hnf_stage2_def hnf_elim12.simps identity3_def count_nonzero_def tdiv_def Let_def
      col_sub_def col_swap_def col_neg_def transform_ok_def entry_def of_int_mat_def isclose_def)

lemma hnf_reduce_123:
  "hnf_reduce (Suc 0) 0 ((1, 0, 0), (4, 3, 0), (7, 6, 0)) ((1, 2, 1), (0, - 1, - 2), (0, 0, 1)) =
     Some (((1, 0, 0), (1, 3, 0), (1, 6, 0)), ((- 1, 2, 1), (1, - 1, - 2), (0, 0, 1)))"
  by (simp add: hnf_reduce.simps col_sub_def entry_def)

lemma hnf_stage3_123:
  "hnf_stage3 S ((1, 0, 0), (4, 3, 0), (7, 6, 0)) ((1, 2, 1), (0, - 1, - 2), (0, 0, 1)) = None"
  by (simp add: hnf_stage3_def hnf_reduce_123 hnf_reduce_diverges entry_def)

text \<open>
  C4. The claim is that \<open>HermiteNormalForm(S)\<close> returns the Hermite normal form with its
  unimodular transformation for every integer matrix of non-zero determinant, and raises
  a singular-matrix error when the determinant is zero. The source does not do the second
  on the matrix \<open>S\<close> with rows \<open>(1, 2, 3)\<close>, \<open>(4, 5, 6)\<close>, \<open>(7, 8, 9)\<close>. Its determinant is 0. The
  source raises the error when \<open>np.linalg.det(S) == 0\<close>, and for any other value of that
  floating-point determinant it goes on: the first two parts leave
  \<open>H\<close> with rows \<open>(1, 0, 0)\<close>, \<open>(4, 3, 0)\<close>, \<open>(7, 6, 0)\<close>, the loop on \<open>H[1, 0]\<close> makes them
  \<open>(1, 0, 0)\<close>, \<open>(1, 3, 0)\<close>, \<open>(1, 6, 0)\<close>, and the loop \<open>while H[2, 2] <= H[2, 0]\<close> then
  subtracts a zero column from column 0 for ever. So the routine neither raises nor
  returns, which is the value \<open>None\<close> of the model; the last conjunct is the case of the
  determinant \<open>6.661338147750939e-16\<close> that the LU factorisation gives in double precision.
\<close>

theorem HermiteNormalForm_singular_not_rejected:
  "det3 (((1, 2, 3), (4, 5, 6), (7, 8, 9)) :: int mat3) = 0 \<and>
   HermiteNormalForm linalg_det ((1, 2, 3), (4, 5, 6), (7, 8, 9)) =
     (if linalg_det ((1, 2, 3), (4, 5, 6), (7, 8, 9)) = 0 then Some (Inl SingularMatrix)
      else None) \<and>
   HermiteNormalForm (\<lambda>S. 6661338147750939 / 10 ^ 31) ((1, 2, 3), (4, 5, 6), (7, 8, 9)) = None"
  by (simp add: HermiteNormalForm_def hnf_stage1_123 hnf_stage2_123 hnf_stage3_123)

subsection \<open>The k-point index\<close>

lemma rint_of_int: "rint (of_int z) = z"
  by (simp add: rint_def)

lemma np_round_of_int: "0 \<le> e \<Longrightarrow> np_round (of_int z) e = of_int z"
proof -
  assume "0 \<le> e"
  have "of_int z * (10::real) ^ nat e = of_int (z * 10 ^ nat e)" by simp
  then have "rint (of_int z * 10 ^ nat e) = z * 10 ^ nat e"
    by (simp only: rint_of_int)
  with \<open>0 \<le> e\<close> show ?thesis by (simp add: np_round_def)
qed

lemma trunc_of_int: "trunc (of_int z) = z"
  by (simp add: trunc_def)

lemma mat_vec_of_int:
  "mat_vec (of_int_mat L) (vmap of_int n) = vmap of_int (mat_vec L n)"
proof -
  obtain a b c d e f g h i where L: "L = ((a, b, c), (d, e, f), (g, h, i))"
    by (metis prod_cases3)
  obtain x y z where n: "n = (x, y, z)" by (metis prod_cases3)
  show ?thesis unfolding L n by (simp add: of_int_mat_def)
qed

lemma find_kpt_index_grid:
  assumes inv: "inv3 K = Inr invK" and e: "0 \<le> eps"
  shows "find_kpt_index (mat_vec K (vmap of_int n)) invK L D eps =
     np_mod (vget (mat_vec L n) 0) (vget D 0) * vget D 1 * vget D 2 +
     np_mod (vget (mat_vec L n) 1) (vget D 1) * vget D 2 +
     np_mod (vget (mat_vec L n) 2) (vget D 2)"
proof -
  obtain x y z where n: "n = (x, y, z)" by (metis prod_cases3)
  obtain u v w where Ln: "mat_vec L n = (u, v, w)" by (metis prod_cases3)
  have rnd: "vmap (\<lambda>x. np_round x eps) (vmap of_int n) = vmap of_int n"
    unfolding n using e by (simp add: np_round_of_int)
  have g: "vmap trunc (mat_vec (of_int_mat L) (vmap of_int n)) = mat_vec L n"
    by (simp add: mat_vec_of_int Ln trunc_of_int)
  show ?thesis
    unfolding find_kpt_index_def inv3_mat_vec [OF inv] Let_def rnd g by simp
qed

lemma mixed_radix_range:
  assumes "0 \<le> a" "a < d0" "0 \<le> b" "b < d1" "0 \<le> c" "c < (d2::int)"
  shows "0 \<le> a * d1 * d2 + b * d2 + c \<and> a * d1 * d2 + b * d2 + c < d0 * d1 * d2"
proof -
  have d: "0 < d0" "0 < d1" "0 < d2" using assms by auto
  have "a * d1 * d2 + b * d2 + c < a * d1 * d2 + b * d2 + d2" using assms by simp
  also have "\<dots> = a * d1 * d2 + (b + 1) * d2" by (simp add: algebra_simps)
  also have "\<dots> \<le> a * d1 * d2 + d1 * d2"
    using assms d by (simp add: mult_right_mono)
  also have "\<dots> = (a + 1) * (d1 * d2)" by (simp add: algebra_simps)
  also have "\<dots> \<le> d0 * (d1 * d2)"
    using assms d by (intro mult_right_mono) auto
  finally have "a * d1 * d2 + b * d2 + c < d0 * d1 * d2" by (simp add: mult.assoc)
  moreover have "0 \<le> a * d1 * d2 + b * d2 + c" using assms d by simp
  ultimately show ?thesis by simp
qed

lemma mixed_radix_inj:
  assumes r: "0 \<le> b" "b < d1" "0 \<le> c" "c < (d2::int)" "0 \<le> b'" "b' < d1" "0 \<le> c'" "c' < d2"
    and eq: "a * d1 * d2 + b * d2 + c = a' * d1 * d2 + b' * d2 + c'"
  shows "a = a' \<and> b = b' \<and> c = c'"
proof -
  have d: "0 < d1" "0 < d2" using r by auto
  have "(c + (a * d1 + b) * d2) mod d2 = (c' + (a' * d1 + b') * d2) mod d2"
    using eq by (simp add: algebra_simps)
  then have c: "c = c'" using r by simp
  with eq have "(a * d1 + b) * d2 = (a' * d1 + b') * d2" by (simp add: algebra_simps)
  with d have e2: "a * d1 + b = a' * d1 + b'" by simp
  then have "(b + a * d1) mod d1 = (b' + a' * d1) mod d1" by (simp add: algebra_simps)
  then have b: "b = b'" using r by simp
  with e2 d have "a = a'" by simp
  with b c show ?thesis by simp
qed


lemma mat_vec_assoc:
  "mat_vec (mat_mul A B) v = mat_vec A (mat_vec B (v :: 'a::comm_ring_1 vec3))"
proof -
  obtain a0 a1 a2 a3 a4 a5 a6 a7 a8 where A: "A = ((a0, a1, a2), (a3, a4, a5), (a6, a7, a8))"
    by (metis prod_cases3)
  obtain b0 b1 b2 b3 b4 b5 b6 b7 b8 where B: "B = ((b0, b1, b2), (b3, b4, b5), (b6, b7, b8))"
    by (metis prod_cases3)
  obtain x y z where v: "v = (x, y, z)" by (metis prod_cases3)
  show ?thesis unfolding A B v by (simp add: algebra_simps)
qed

lemma mat_vec_adjugate:
  "mat_vec M (mat_vec (adjugate M) v) = smul (det3 M) (v :: 'a::comm_ring_1 vec3)"
proof -
  obtain a b c d e f g h i where M: "M = ((a, b, c), (d, e, f), (g, h, i))"
    by (metis prod_cases3)
  obtain x y z where v: "v = (x, y, z)" by (metis prod_cases3)
  show ?thesis unfolding M v by (simp add: algebra_simps)
qed

lemma mat_vec_smul: "mat_vec M (smul k v) = smul k (mat_vec M (v :: 'a::comm_ring_1 vec3))"
proof -
  obtain a b c d e f g h i where M: "M = ((a, b, c), (d, e, f), (g, h, i))"
    by (metis prod_cases3)
  obtain x y z where v: "v = (x, y, z)" by (metis prod_cases3)
  show ?thesis unfolding M v by (simp add: algebra_simps)
qed

lemma mat_vec_vsub:
  "mat_vec M (vsub v w) = vsub (mat_vec M v) (mat_vec M (w :: 'a::comm_ring_1 vec3))"
proof -
  obtain a b c d e f g h i where M: "M = ((a, b, c), (d, e, f), (g, h, i))"
    by (metis prod_cases3)
  obtain x y z where v: "v = (x, y, z)" by (metis prod_cases3)
  obtain x' y' z' where w: "w = (x', y', z')" by (metis prod_cases3)
  show ?thesis unfolding M v w by (simp add: algebra_simps)
qed

lemma smul_cancel_int: "k \<noteq> 0 \<Longrightarrow> smul k v = smul k w \<Longrightarrow> v = (w :: int vec3)"
  by (cases v; cases w) simp

lemma mat_vec_inj_int:
  assumes "det3 L \<noteq> 0" "mat_vec L v = mat_vec L (w :: int vec3)"
  shows "v = w"
proof -
  have "smul (det3 L) v = smul (det3 L) w"
    using assms(2) adjugate_mat_vec [of L v] adjugate_mat_vec [of L w] by simp
  with assms(1) show ?thesis by (rule smul_cancel_int)
qed

lemma unimodular_right_inverse:
  assumes "\<bar>det3 R\<bar> = (1::int)"
  shows "mat_vec R (smul (det3 R) (mat_vec (adjugate R) m)) = m"
proof -
  from assms have "det3 R * det3 R = 1"
    by (metis abs_mult_self_eq mult_1)
  then show ?thesis
    by (simp add: mat_vec_smul mat_vec_adjugate smul_smul smul_one)
qed

lemma diag_residues:
  "(\<exists>z. (u :: int vec3) = mat_vec (diag3 (d0, d1, d2)) z) \<longleftrightarrow>
   d0 dvd vget u 0 \<and> d1 dvd vget u 1 \<and> d2 dvd vget u 2"
proof
  assume "\<exists>z. u = mat_vec (diag3 (d0, d1, d2)) z"
  then obtain z where "u = mat_vec (diag3 (d0, d1, d2)) z" ..
  then show "d0 dvd vget u 0 \<and> d1 dvd vget u 1 \<and> d2 dvd vget u 2"
    by (cases z) simp
next
  assume a: "d0 dvd vget u 0 \<and> d1 dvd vget u 1 \<and> d2 dvd vget u 2"
  obtain x y z where u: "u = (x, y, z)" by (metis prod_cases3)
  from a obtain p q r where "x = d0 * p" "y = d1 * q" "z = d2 * r"
    unfolding u by (auto elim!: dvdE)
  then have "u = mat_vec (diag3 (d0, d1, d2)) (p, q, r)" by (simp add: u)
  then show "\<exists>z. u = mat_vec (diag3 (d0, d1, d2)) z" ..
qed

lemma lattice_class_iff:
  assumes L: "\<bar>det3 (L :: int mat3)\<bar> = 1" and R: "\<bar>det3 R\<bar> = 1"
    and snf: "mat_mul (mat_mul L N) R = diag3 (d0, d1, d2)"
  shows "(\<exists>m. vsub n n' = mat_vec N m) \<longleftrightarrow>
         d0 dvd vget (vsub (mat_vec L n) (mat_vec L n')) 0 \<and>
         d1 dvd vget (vsub (mat_vec L n) (mat_vec L n')) 1 \<and>
         d2 dvd vget (vsub (mat_vec L n) (mat_vec L n')) 2"
proof -
  have nzL: "det3 L \<noteq> 0"
  proof
    assume "det3 L = 0"
    with L show False by simp
  qed
  have dz: "\<And>z. mat_vec (diag3 (d0, d1, d2)) z = mat_vec L (mat_vec N (mat_vec R z))"
    by (simp only: snf [symmetric] mat_vec_assoc)
  have "(\<exists>m. vsub n n' = mat_vec N m) \<longleftrightarrow>
        (\<exists>z. mat_vec L (vsub n n') = mat_vec (diag3 (d0, d1, d2)) z)"
  proof
    assume "\<exists>m. vsub n n' = mat_vec N m"
    then obtain m where m: "vsub n n' = mat_vec N m" ..
    define z where "z = smul (det3 R) (mat_vec (adjugate R) m)"
    have "mat_vec R z = m" unfolding z_def by (rule unimodular_right_inverse [OF R])
    then have "mat_vec L (vsub n n') = mat_vec (diag3 (d0, d1, d2)) z"
      by (simp only: dz m)
    then show "\<exists>z. mat_vec L (vsub n n') = mat_vec (diag3 (d0, d1, d2)) z" ..
  next
    assume "\<exists>z. mat_vec L (vsub n n') = mat_vec (diag3 (d0, d1, d2)) z"
    then obtain z where "mat_vec L (vsub n n') = mat_vec (diag3 (d0, d1, d2)) z" ..
    then have "mat_vec L (vsub n n') = mat_vec L (mat_vec N (mat_vec R z))"
      by (simp only: dz)
    from mat_vec_inj_int [OF nzL this] show "\<exists>m. vsub n n' = mat_vec N m" ..
  qed
  then show ?thesis
    by (simp only: diag_residues mat_vec_vsub)
qed

lemma vmap_of_int_inj: "vmap of_int v = (vmap of_int w :: real vec3) \<longleftrightarrow> v = (w :: int vec3)"
  by (cases v; cases w) simp

lemma vmap_of_int_vsub:
  "vsub (vmap of_int v) (vmap of_int w) = (vmap of_int (vsub v w) :: real vec3)"
  by (cases v; cases w) simp

lemma cartesian_class_iff:
  assumes K: "inv3 K = Inr invK"
  shows "(\<exists>m. vsub (mat_vec K (vmap of_int n)) (mat_vec K (vmap of_int n')) =
              mat_vec (mat_mul K (of_int_mat N)) (vmap of_int m)) \<longleftrightarrow>
         (\<exists>m. vsub n n' = mat_vec N m)"
proof -
  have inj: "\<And>v w. mat_vec K v = mat_vec K w \<Longrightarrow> v = w"
  proof -
    fix v w assume "mat_vec K v = mat_vec K w"
    then have "mat_vec invK (mat_vec K v) = mat_vec invK (mat_vec K w)" by simp
    then show "v = w" by (simp only: inv3_mat_vec [OF K])
  qed
  have eq: "\<And>m. (vsub (mat_vec K (vmap of_int n)) (mat_vec K (vmap of_int n')) =
              mat_vec (mat_mul K (of_int_mat N)) (vmap of_int m)) \<longleftrightarrow>
            vsub n n' = mat_vec N m"
  proof -
    fix m
    have l: "vsub (mat_vec K (vmap of_int n)) (mat_vec K (vmap of_int n')) =
        mat_vec K (vmap of_int (vsub n n'))"
      by (simp only: mat_vec_vsub [symmetric] vmap_of_int_vsub)
    have r: "mat_vec (mat_mul K (of_int_mat N)) (vmap of_int m) =
        mat_vec K (vmap of_int (mat_vec N m))"
      by (simp only: mat_vec_assoc mat_vec_of_int)
    show "(vsub (mat_vec K (vmap of_int n)) (mat_vec K (vmap of_int n')) =
              mat_vec (mat_mul K (of_int_mat N)) (vmap of_int m)) \<longleftrightarrow>
            vsub n n' = mat_vec N m"
      unfolding l r
    proof
      assume "mat_vec K (vmap of_int (vsub n n')) = mat_vec K (vmap of_int (mat_vec N m))"
      then have "(vmap of_int (vsub n n') :: real vec3) = vmap of_int (mat_vec N m)"
        by (rule inj)
      then show "vsub n n' = mat_vec N m" by (simp only: vmap_of_int_inj)
    next
      assume "vsub n n' = mat_vec N m"
      then show "mat_vec K (vmap of_int (vsub n n')) = mat_vec K (vmap of_int (mat_vec N m))"
        by simp
    qed
  qed
  show ?thesis by (simp only: eq)
qed

text \<open>
  C2, as the code has it. \<open>K\<close> holds the grid vectors, \<open>N\<close> is the integer matrix with
  reciprocal lattice \<open>= K N\<close>, and \<open>L N R = diag D\<close> is a Smith form with unimodular \<open>L\<close>,
  \<open>R\<close> and positive diagonal \<open>D = (D1, D2, D3)\<close>. On a grid point \<open>K n\<close> (the shift already
  subtracted) the index is \<open>(L n mod D)\<close> dotted against \<open>(D2 D3, D3, 1)\<close>; it lies in
  \<open>[0, D1 D2 D3)\<close>, and two grid points have the same index exactly when they differ by a
  vector of the reciprocal lattice.
\<close>

theorem find_kpt_index_unique:
  assumes K: "inv3 K = Inr invK" and eps: "0 \<le> eps"
    and D: "0 < d0" "0 < d1" "0 < d2"
    and L: "\<bar>det3 L\<bar> = 1" and R: "\<bar>det3 R\<bar> = 1"
    and snf: "mat_mul (mat_mul L N) R = diag3 (d0, d1, d2)"
  shows "find_kpt_index (mat_vec K (vmap of_int n)) invK L (d0, d1, d2) eps =
           (vget (mat_vec L n) 0 mod d0) * d1 * d2 + (vget (mat_vec L n) 1 mod d1) * d2 +
           vget (mat_vec L n) 2 mod d2 \<and>
         0 \<le> find_kpt_index (mat_vec K (vmap of_int n)) invK L (d0, d1, d2) eps \<and>
         find_kpt_index (mat_vec K (vmap of_int n)) invK L (d0, d1, d2) eps < d0 * d1 * d2 \<and>
         (find_kpt_index (mat_vec K (vmap of_int n)) invK L (d0, d1, d2) eps =
          find_kpt_index (mat_vec K (vmap of_int n')) invK L (d0, d1, d2) eps \<longleftrightarrow>
          (\<exists>m. vsub (mat_vec K (vmap of_int n)) (mat_vec K (vmap of_int n')) =
              mat_vec (mat_mul K (of_int_mat N)) (vmap of_int m)))"
proof -
  obtain u0 u1 u2 where u: "mat_vec L n = (u0, u1, u2)" by (metis prod_cases3)
  obtain v0 v1 v2 where v: "mat_vec L n' = (v0, v1, v2)" by (metis prod_cases3)
  have i: "find_kpt_index (mat_vec K (vmap of_int n)) invK L (d0, d1, d2) eps =
      (u0 mod d0) * d1 * d2 + (u1 mod d1) * d2 + u2 mod d2"
    using D by (simp add: find_kpt_index_grid [OF K eps] u np_mod_def)
  have i': "find_kpt_index (mat_vec K (vmap of_int n')) invK L (d0, d1, d2) eps =
      (v0 mod d0) * d1 * d2 + (v1 mod d1) * d2 + v2 mod d2"
    using D by (simp add: find_kpt_index_grid [OF K eps] v np_mod_def)
  have ru: "0 \<le> u0 mod d0" "u0 mod d0 < d0" "0 \<le> u1 mod d1" "u1 mod d1 < d1"
    "0 \<le> u2 mod d2" "u2 mod d2 < d2" using D by simp_all
  have rv: "0 \<le> v1 mod d1" "v1 mod d1 < d1" "0 \<le> v2 mod d2" "v2 mod d2 < d2"
    using D by simp_all
  have range: "0 \<le> (u0 mod d0) * d1 * d2 + (u1 mod d1) * d2 + u2 mod d2 \<and>
      (u0 mod d0) * d1 * d2 + (u1 mod d1) * d2 + u2 mod d2 < d0 * d1 * d2"
    by (rule mixed_radix_range [OF ru])
  have "((u0 mod d0) * d1 * d2 + (u1 mod d1) * d2 + u2 mod d2 =
         (v0 mod d0) * d1 * d2 + (v1 mod d1) * d2 + v2 mod d2) \<longleftrightarrow>
        u0 mod d0 = v0 mod d0 \<and> u1 mod d1 = v1 mod d1 \<and> u2 mod d2 = v2 mod d2"
    using mixed_radix_inj [OF ru(3-6) rv, of "u0 mod d0" "v0 mod d0"] by auto
  also have "\<dots> \<longleftrightarrow> d0 dvd (u0 - v0) \<and> d1 dvd (u1 - v1) \<and> d2 dvd (u2 - v2)"
    by (simp add: mod_eq_dvd_iff)
  also have "\<dots> \<longleftrightarrow> (\<exists>m. vsub n n' = mat_vec N m)"
    using lattice_class_iff [OF L R snf, of n n'] by (simp add: u v)
  also have "\<dots> \<longleftrightarrow> (\<exists>m. vsub (mat_vec K (vmap of_int n)) (mat_vec K (vmap of_int n')) =
              mat_vec (mat_mul K (of_int_mat N)) (vmap of_int m))"
    by (rule cartesian_class_iff [OF K, symmetric])
  finally show ?thesis using range by (simp add: i i' u)
qed

theorem find_kpt_index_unique_witness:
  "inv3 ((1 / 2, 0, 0), (0, 1, 0), (0, 0, 1)) = Inr ((2, 0, 0), (0, 1, 0), (0, 0, 1)) \<and>
   \<bar>det3 (((0, 0, 1), (0, 1, 0), (1, 0, 0)) :: int mat3)\<bar> = 1 \<and>
   mat_mul (mat_mul ((0, 0, 1), (0, 1, 0), (1, 0, 0)) ((2, 0, 0), (0, 1, 0), (0, 0, 1)))
     ((0, 0, 1), (0, 1, 0), (1, 0, 0)) = diag3 (1, 1, 2 :: int) \<and>
   0 \<le> find_kpt_index (mat_vec ((1 / 2, 0, 0), (0, 1, 0), (0, 0, 1)) (vmap of_int (1, 0, 0)))
          ((2, 0, 0), (0, 1, 0), (0, 0, 1)) ((0, 0, 1), (0, 1, 0), (1, 0, 0)) (1, 1, 2) 4 \<and>
   find_kpt_index (mat_vec ((1 / 2, 0, 0), (0, 1, 0), (0, 0, 1)) (vmap of_int (1, 0, 0)))
          ((2, 0, 0), (0, 1, 0), (0, 0, 1)) ((0, 0, 1), (0, 1, 0), (1, 0, 0)) (1, 1, 2) 4
     < 1 * 1 * 2"
proof -
  have h1: "inv3 ((1 / 2, 0, 0), (0, 1, 0), (0, 0, 1)) = Inr ((2, 0, 0), (0, 1, 0), (0, 0, 1))"
    by (simp add: inv3_def)
  have h2: "\<bar>det3 (((0, 0, 1), (0, 1, 0), (1, 0, 0)) :: int mat3)\<bar> = 1" by simp
  have h3: "mat_mul (mat_mul ((0, 0, 1), (0, 1, 0), (1, 0, 0)) ((2, 0, 0), (0, 1, 0), (0, 0, 1)))
     ((0, 0, 1), (0, 1, 0), (1, 0, 0)) = diag3 (1, 1, 2 :: int)" by simp
  from find_kpt_index_unique [OF h1 _ _ _ _ h2 h2 h3, of 4 "(1, 0, 0)" "(0, 0, 0)"]
  have "0 \<le> find_kpt_index (mat_vec ((1 / 2, 0, 0), (0, 1, 0), (0, 0, 1)) (vmap of_int (1, 0, 0)))
          ((2, 0, 0), (0, 1, 0), (0, 0, 1)) ((0, 0, 1), (0, 1, 0), (1, 0, 0)) (1, 1, 2) 4 \<and>
   find_kpt_index (mat_vec ((1 / 2, 0, 0), (0, 1, 0), (0, 0, 1)) (vmap of_int (1, 0, 0)))
          ((2, 0, 0), (0, 1, 0), (0, 0, 1)) ((0, 0, 1), (0, 1, 0), (1, 0, 0)) (1, 1, 2) 4
     < 1 * 1 * 2" by simp
  with h1 h2 h3 show ?thesis by blast
qed

text \<open>
  With \<open>D = (1, 2, 4)\<close> and identity \<open>L\<close> and grid, the code sends \<open>(0, 1, 0)\<close> to 4 and
  \<open>(0, 0, 2)\<close> to 2. The weights \<open>(D1 D2, D2, 1)\<close> would send both to 2, although the two
  points are not equivalent.
\<close>

theorem find_kpt_index_weights:
  "find_kpt_index (0, 1, 0) identity3 identity3 (1, 2, 4) 4 = 4 \<and>
   spec_kpt_index (0, 1, 0) identity3 identity3 (1, 2, 4) = 2 \<and>
   find_kpt_index (0, 0, 2) identity3 identity3 (1, 2, 4) 4 = 2 \<and>
   spec_kpt_index (0, 0, 2) identity3 identity3 (1, 2, 4) = 2"
  by (simp add: find_kpt_index_def spec_kpt_index_def identity3_def of_int_mat_def
      np_round_def rint_def trunc_def np_mod_def)

subsection \<open>Point group of the simple cubic lattice\<close>

lemma vnorm_unit [simp]: "vnorm (1, 0, 0) = 1" "vnorm (0, 1, 0) = 1" "vnorm (0, 0, 1) = 1"
  by (simp_all add: vnorm_def)

lemma upto_m1: "[- 1 .. 2 :: int] = [- 1, 0, 1, 2]"
  by (simp add: upto_rec1)

lemma sphere_cubic:
  assumes "0 < eps" "eps \<le> 1"
  shows "search_sphere identity3 eps =
     Inr [(- 1, 0, 0), (0, - 1, 0), (0, 0, - 1), (0, 0, 0), (0, 0, 1), (0, 1, 0), (1, 0, 0)]"
proof -
  have c: "\<lceil>1 + eps\<rceil> = 2" using assms by (simp add: ceiling_eq_iff)
  show ?thesis
    using assms
    by (simp add: search_sphere_def identity3_def Let_def c upto_m1)
qed


text \<open>
  The sphere points of the simple cubic lattice with unit constant, and the 48 operators
  the search accepts, in the order in which it finds them.
\<close>

definition cubic_pts :: "real vec3 list" where
  "cubic_pts = [(- 1, 0, 0), (0, - 1, 0), (0, 0, - 1), (0, 0, 0), (0, 0, 1), (0, 1, 0), (1, 0, 0)]"

definition cubic_ops :: "real mat3 list" where
  "cubic_ops =
     [((- 1, 0, 0), (0, - 1, 0), (0, 0, - 1)),
      ((- 1, 0, 0), (0, - 1, 0), (0, 0, 1)),
      ((- 1, 0, 0), (0, 0, - 1), (0, - 1, 0)),
      ((- 1, 0, 0), (0, 0, 1), (0, - 1, 0)),
      ((- 1, 0, 0), (0, 0, - 1), (0, 1, 0)),
      ((- 1, 0, 0), (0, 0, 1), (0, 1, 0)),
      ((- 1, 0, 0), (0, 1, 0), (0, 0, - 1)),
      ((- 1, 0, 0), (0, 1, 0), (0, 0, 1)),
      ((0, - 1, 0), (- 1, 0, 0), (0, 0, - 1)),
      ((0, - 1, 0), (- 1, 0, 0), (0, 0, 1)),
      ((0, 0, - 1), (- 1, 0, 0), (0, - 1, 0)),
      ((0, 0, 1), (- 1, 0, 0), (0, - 1, 0)),
      ((0, 0, - 1), (- 1, 0, 0), (0, 1, 0)),
      ((0, 0, 1), (- 1, 0, 0), (0, 1, 0)),
      ((0, 1, 0), (- 1, 0, 0), (0, 0, - 1)),
      ((0, 1, 0), (- 1, 0, 0), (0, 0, 1)),
      ((0, - 1, 0), (0, 0, - 1), (- 1, 0, 0)),
      ((0, - 1, 0), (0, 0, 1), (- 1, 0, 0)),
      ((0, 0, - 1), (0, - 1, 0), (- 1, 0, 0)),
      ((0, 0, 1), (0, - 1, 0), (- 1, 0, 0)),
      ((0, 0, - 1), (0, 1, 0), (- 1, 0, 0)),
      ((0, 0, 1), (0, 1, 0), (- 1, 0, 0)),
      ((0, 1, 0), (0, 0, - 1), (- 1, 0, 0)),
      ((0, 1, 0), (0, 0, 1), (- 1, 0, 0)),
      ((0, - 1, 0), (0, 0, - 1), (1, 0, 0)),
      ((0, - 1, 0), (0, 0, 1), (1, 0, 0)),
      ((0, 0, - 1), (0, - 1, 0), (1, 0, 0)),
      ((0, 0, 1), (0, - 1, 0), (1, 0, 0)),
      ((0, 0, - 1), (0, 1, 0), (1, 0, 0)),
      ((0, 0, 1), (0, 1, 0), (1, 0, 0)),
      ((0, 1, 0), (0, 0, - 1), (1, 0, 0)),
      ((0, 1, 0), (0, 0, 1), (1, 0, 0)),
      ((0, - 1, 0), (1, 0, 0), (0, 0, - 1)),
      ((0, - 1, 0), (1, 0, 0), (0, 0, 1)),
      ((0, 0, - 1), (1, 0, 0), (0, - 1, 0)),
      ((0, 0, 1), (1, 0, 0), (0, - 1, 0)),
      ((0, 0, - 1), (1, 0, 0), (0, 1, 0)),
      ((0, 0, 1), (1, 0, 0), (0, 1, 0)),
      ((0, 1, 0), (1, 0, 0), (0, 0, - 1)),
      ((0, 1, 0), (1, 0, 0), (0, 0, 1)),
      ((1, 0, 0), (0, - 1, 0), (0, 0, - 1)),
      ((1, 0, 0), (0, - 1, 0), (0, 0, 1)),
      ((1, 0, 0), (0, 0, - 1), (0, - 1, 0)),
      ((1, 0, 0), (0, 0, 1), (0, - 1, 0)),
      ((1, 0, 0), (0, 0, - 1), (0, 1, 0)),
      ((1, 0, 0), (0, 0, 1), (0, 1, 0)),
      ((1, 0, 0), (0, 1, 0), (0, 0, - 1)),
      ((1, 0, 0), (0, 1, 0), (0, 0, 1))]"

lemma cubic_fold:
  "fold (point_group_step identity3 identity3 (1 / 10 ^ 4) (1 / 10 ^ 6))
     (permutations3 cubic_pts) [] = cubic_ops"
  by (simp add: permutations3_def cubic_pts_def point_group_step_def check_contained_def
      contained_by_def isclose_def identity3_def cubic_ops_def Let_def)


lemma make_ptvecs_cubic:
  "make_ptvecs ''prim'' [1, 1, 1] [pi / 2, pi / 2, pi / 2] = Inr identity3"
proof -
  have p: "2 \<le> pi" "pi < 4" using pi_ge_two pi_less_4 by simp_all
  have s: "sum_list (take 2 (sort [pi / 2, pi / 2, pi / 2])) = pi" by simp
  have m: "Max (set [pi / 2, pi / 2, pi / 2]) = pi / 2" by simp
  have c1: "\<not> (pi < pi / 2 \<or> isclose_default pi (pi / 2))"
    using p by (simp add: isclose_default_def isclose_def)
  have c2: "\<not> isclose_default (pi / 2) (2 * pi / 3)"
    using p by (simp add: isclose_default_def isclose_def)
  have c3: "isclose_default (pi / 2) (pi / 2)" "isclose_default 1 1"
    using p by (simp_all add: isclose_default_def isclose_def)
  have r: "round_to 1 15 = 1" by (simp add: round_to_def rint_def)
  have b: "build_ptvecs ''prim'' 1 1 1 (pi / 2) (pi / 2) (pi / 2) = Inr identity3"
    unfolding build_ptvecs_def Let_def
    by (simp add: c2 c3 r identity3_def)
  show ?thesis
    unfolding make_ptvecs_def s m using c1 c2 b by simp
qed

lemma inv3_identity: "inv3 identity3 = Inr identity3"
  by (simp add: inv3_def identity3_def)

lemma get_point_group_cubic:
  assumes "0 < eps" "eps \<le> 1"
  shows "get_point_group identity3 (1 / 10 ^ 4) (1 / 10 ^ 6) eps = Inr cubic_ops"
  unfolding get_point_group_def sphere_cubic [OF assms] inv3_identity
  by (simp only: sum.case cubic_pts_def [symmetric] cubic_fold)

lemma cubic_ops_distinct: "distinct cubic_ops"
  by (simp add: cubic_ops_def)

text \<open>
  C5. For the simple cubic lattice with \<open>a = b = c = 1\<close>, all angles \<open>pi / 2\<close> and primitive
  centering, \<open>make_ptvecs\<close> gives the identity matrix and \<open>get_point_group\<close>, with its default
  tolerances, returns exactly 48 distinct operators.
\<close>

theorem cubic_point_group_48:
  "\<exists>V ops. make_ptvecs ''prim'' [1, 1, 1] [pi / 2, pi / 2, pi / 2] = Inr V \<and>
      get_point_group V (1 / 10 ^ 4) (1 / 10 ^ 6) (1 / 10 ^ 9) = Inr ops \<and>
      length ops = 48 \<and> distinct ops"
proof -
  have "get_point_group identity3 (1 / 10 ^ 4) (1 / 10 ^ 6) (1 / 10 ^ 9) = Inr cubic_ops"
    by (rule get_point_group_cubic) simp_all
  moreover have "length cubic_ops = 48" by (simp add: cubic_ops_def)
  ultimately show ?thesis using make_ptvecs_cubic cubic_ops_distinct by blast
qed

subsection \<open>Space group\<close>

lemma all_atoms_mapped_True:
  "all_atoms_mapped lpg t lat rtol atol labels basis atoms = Inr True \<Longrightarrow>
   \<forall>(ty, pos) \<in> set atoms. \<exists>rot.
      bring_into_cell (vadd (mat_vec lpg pos) t) lat rtol atol ''Cart'' False = Inr rot \<and>
      check_atom_equivalency ty rot labels basis"
proof (induction atoms)
  case Nil
  then show ?case by simp
next
  case (Cons a atoms)
  obtain ty pos where a: "a = (ty, pos)" by (cases a)
  from Cons.prems obtain rot where
    r: "bring_into_cell (vadd (mat_vec lpg pos) t) lat rtol atol ''Cart'' False = Inr rot"
    and e: "check_atom_equivalency ty rot labels basis"
    and rest: "all_atoms_mapped lpg t lat rtol atol labels basis atoms = Inr True"
    unfolding a by (auto split: sum.splits if_splits)
  from r e have "\<exists>rot.
      bring_into_cell (vadd (mat_vec lpg pos) t) lat rtol atol ''Cart'' False = Inr rot \<and>
      check_atom_equivalency ty rot labels basis" by blast
  with Cons.IH [OF rest] show ?case unfolding a by simp
qed

text \<open>
  The invariant of the two outer loops: the two result lists have one length, and each
  pair of them holds an operator of the lattice point group and a translation that passed
  the test on every atom.
\<close>

definition pairs_ok ::
  "real mat3 \<Rightarrow> real \<Rightarrow> real \<Rightarrow> int list \<Rightarrow> real vec3 list \<Rightarrow> real mat3 list
     \<Rightarrow> real mat3 list \<times> real vec3 list \<Rightarrow> bool" where
  "pairs_ok lat rtol atol labels basis lpgs acc \<longleftrightarrow>
     length (fst acc) = length (snd acc) \<and>
     list_all (\<lambda>(op, t). op \<in> set lpgs \<and>
        all_atoms_mapped op t lat rtol atol labels basis (zip labels basis) = Inr True)
       (zip (fst acc) (snd acc))"

lemma translations_loop_ok:
  "translations_loop lpg lat rtol atol labels basis ft rf atoms acc = Inr acc' \<Longrightarrow>
   pairs_ok lat rtol atol labels basis lpgs acc \<Longrightarrow> lpg \<in> set lpgs \<Longrightarrow>
   pairs_ok lat rtol atol labels basis lpgs acc'"
proof (induction atoms arbitrary: acc)
  case Nil
  then show ?case by simp
next
  case (Cons a atoms)
  obtain ty pos where a: "a = (ty, pos)" by (cases a)
  show ?case
  proof (cases "ft \<noteq> ty")
    case True
    with Cons.prems(1) have "translations_loop lpg lat rtol atol labels basis ft rf atoms acc = Inr acc'"
      unfolding a by simp
    from Cons.IH [OF this Cons.prems(2,3)] show ?thesis .
  next
    case False
    with Cons.prems(1) obtain t eq where
      t: "bring_into_cell (vsub pos rf) lat rtol atol ''Cart'' False = Inr t"
      and eq: "all_atoms_mapped lpg t lat rtol atol labels basis (zip labels basis) = Inr eq"
      and rest: "translations_loop lpg lat rtol atol labels basis ft rf atoms
          (if eq then (fst acc @ [lpg], snd acc @ [t]) else acc) = Inr acc'"
      unfolding a by (auto split: sum.splits)
    have "pairs_ok lat rtol atol labels basis lpgs
        (if eq then (fst acc @ [lpg], snd acc @ [t]) else acc)"
      using Cons.prems(2,3) eq by (auto simp: pairs_ok_def)
    from Cons.IH [OF rest this Cons.prems(3)] show ?thesis .
  qed
qed

lemma operators_loop_ok:
  "operators_loop lat rtol atol labels basis ft fp ops acc = Inr acc' \<Longrightarrow>
   pairs_ok lat rtol atol labels basis lpgs acc \<Longrightarrow> set ops \<subseteq> set lpgs \<Longrightarrow>
   pairs_ok lat rtol atol labels basis lpgs acc'"
proof (induction ops arbitrary: acc)
  case Nil
  then show ?case by simp
next
  case (Cons lpg ops)
  from Cons.prems(1) obtain acc1 where
    s: "translations_loop lpg lat rtol atol labels basis ft (mat_vec lpg fp)
          (zip labels basis) acc = Inr acc1"
    and rest: "operators_loop lat rtol atol labels basis ft fp ops acc1 = Inr acc'"
    by (auto split: sum.splits)
  from Cons.prems(3) have m: "lpg \<in> set lpgs" "set ops \<subseteq> set lpgs" by auto
  from translations_loop_ok [OF s Cons.prems(2) m(1)]
  have "pairs_ok lat rtol atol labels basis lpgs acc1" .
  from Cons.IH [OF rest this m(2)] show ?case .
qed

text \<open>
  C10. When \<open>get_space_group\<close> returns, its two lists have the same length, every returned
  operator is one of the operators \<open>get_point_group\<close> finds for the same lattice vectors and
  tolerances, and the operator and translation at any one index map every atom, after
  rotation, translation and folding into the cell, onto a position that passes
  \<open>check_atom_equivalency\<close> for the label of that atom.
\<close>

theorem get_space_group_pairs:
  assumes "get_space_group lattice_vectors atom_labels atom_positions coords rtol atol eps =
             Inr (point_group, translations)"
  shows "length point_group = length translations \<and>
    (\<exists>lattice_pointgroup atomic_basis.
       get_point_group lattice_vectors rtol atol eps = Inr lattice_pointgroup \<and>
       folded_basis lattice_vectors atom_positions coords rtol atol = Inr atomic_basis \<and>
       set point_group \<subseteq> set lattice_pointgroup \<and>
       (\<forall>k < length point_group. \<forall>(ty, pos) \<in> set (zip atom_labels atomic_basis). \<exists>rot.
          bring_into_cell (vadd (mat_vec (point_group ! k) pos) (translations ! k))
            lattice_vectors rtol atol ''Cart'' False = Inr rot \<and>
          check_atom_equivalency ty rot atom_labels atomic_basis))"
proof -
  from assms obtain basis lpgs ft ls fp bs where
    b: "folded_basis lattice_vectors atom_positions coords rtol atol = Inr basis"
    and g: "get_point_group lattice_vectors rtol atol eps = Inr lpgs"
    and l: "atom_labels = ft # ls" and p: "basis = fp # bs"
    and loop: "operators_loop lattice_vectors rtol atol atom_labels basis ft fp lpgs ([], []) =
       Inr (point_group, translations)"
    unfolding get_space_group_def by (auto split: sum.splits list.splits)
  have "pairs_ok lattice_vectors rtol atol atom_labels basis lpgs ([], [])"
    by (simp add: pairs_ok_def)
  from operators_loop_ok [OF loop this subset_refl]
  have ok: "pairs_ok lattice_vectors rtol atol atom_labels basis lpgs (point_group, translations)" .
  then have len: "length point_group = length translations" by (simp add: pairs_ok_def)
  have each: "\<And>k. k < length point_group \<Longrightarrow>
      point_group ! k \<in> set lpgs \<and>
      all_atoms_mapped (point_group ! k) (translations ! k) lattice_vectors rtol atol atom_labels
        basis (zip atom_labels basis) = Inr True"
    using ok len by (auto simp: pairs_ok_def list_all_length)
  have sub: "set point_group \<subseteq> set lpgs"
  proof
    fix x assume "x \<in> set point_group"
    then obtain k where "k < length point_group" "x = point_group ! k"
      by (metis in_set_conv_nth)
    with each [of k] show "x \<in> set lpgs" by simp
  qed
  have "\<forall>k < length point_group. \<forall>(ty, pos) \<in> set (zip atom_labels basis). \<exists>rot.
          bring_into_cell (vadd (mat_vec (point_group ! k) pos) (translations ! k))
            lattice_vectors rtol atol ''Cart'' False = Inr rot \<and>
          check_atom_equivalency ty rot atom_labels basis"
    using each all_atoms_mapped_True by blast
  with len b g sub show ?thesis by blast
qed


lemma mat_vec_zero: "mat_vec M (0, 0, 0) = ((0, 0, 0) :: real vec3)"
  by (cases M rule: prod_cases3; cases "fst M"; cases "fst (snd M)"; cases "snd (snd M)") simp

lemma bring_origin:
  "bring_into_cell (0, 0, 0) identity3 rtol atol ''Cart'' False = Inr (0, 0, 0)"
  by (simp add: bring_into_cell_def inv3_def identity3_def fold_coord_def)

lemma origin_equivalent: "check_atom_equivalency l (0, 0, 0) [l] [(0, 0, 0)]"
  by (simp add: check_atom_equivalency_def indices_by_def contained_by_def
      isclose_default_def isclose_def)

lemma operators_loop_origin:
  "operators_loop identity3 rtol atol [l] [(0, 0, 0)] l (0, 0, 0) ops acc =
     Inr (fst acc @ ops, snd acc @ replicate (length ops) (0, 0, 0))"
proof (induction ops arbitrary: acc)
  case Nil
  then show ?case by simp
next
  case (Cons lpg ops)
  have "translations_loop lpg identity3 rtol atol [l] [(0, 0, 0)] l (mat_vec lpg (0, 0, 0))
      (zip [l] [(0, 0, 0)]) acc = Inr (fst acc @ [lpg], snd acc @ [(0, 0, 0)])"
    by (simp add: mat_vec_zero bring_origin origin_equivalent)
  then show ?case
    by (simp add: Cons.IH replicate_app_Cons_same)
qed

lemma space_group_cubic_one_atom:
  assumes "0 < eps" "eps \<le> 1"
  shows "get_space_group identity3 [l] [(0, 0, 0)] ''lat'' (1 / 10 ^ 4) (1 / 10 ^ 6) eps =
     Inr (cubic_ops, replicate (length cubic_ops) (0, 0, 0))"
proof -
  have b: "folded_basis identity3 [(0, 0, 0)] ''lat'' (1 / 10 ^ 4) (1 / 10 ^ 6) = Inr [(0, 0, 0)]"
    unfolding folded_basis_def by (simp add: mat_vec_zero bring_origin)
  show ?thesis
    unfolding get_space_group_def b get_point_group_cubic [OF assms]
    by (simp add: operators_loop_origin)
qed

theorem get_space_group_pairs_witness:
  "get_space_group identity3 [0] [(0, 0, 0)] ''lat'' (1 / 10 ^ 4) (1 / 10 ^ 6) (1 / 10 ^ 10) =
     Inr (cubic_ops, replicate (length cubic_ops) (0, 0, 0)) \<and>
   length cubic_ops = length (replicate (length cubic_ops) ((0, 0, 0) :: real vec3))"
proof -
  have h: "get_space_group identity3 [0] [(0, 0, 0)] ''lat'' (1 / 10 ^ 4) (1 / 10 ^ 6)
      (1 / 10 ^ 10) = Inr (cubic_ops, replicate (length cubic_ops) (0, 0, 0))"
    by (rule space_group_cubic_one_atom) simp_all
  from get_space_group_pairs [OF h]
  have "length cubic_ops = length (replicate (length cubic_ops) ((0, 0, 0) :: real vec3))"
    by (rule conjunct1)
  with h show ?thesis by (rule conjI)
qed

subsection \<open>Reduction of a list of k-points\<close>








lemma rotate_orbit_lengths:
  "rotate_orbit k rlat invK shift L D eps rtol pgs st = Inr st' \<Longrightarrow>
     cOrbit st' = cOrbit st \<and> length (iWt st') = length (iWt st)"
proof (induction pgs arbitrary: st)
  case Nil
  then show ?case by simp
next
  case (Cons pg pgs)
  from Cons.prems show ?case
    by (auto simp: Let_def split: sum.splits if_splits option.splits dest!: Cons.IH)
qed

lemma traverse_lengths:
  "traverse rlat invK shift L D eps rtol pgs xs st = Inr st' \<Longrightarrow>
     length (iWt st) = cOrbit st \<Longrightarrow> length (iWt st') = cOrbit st'"
proof (induction xs arbitrary: st)
  case Nil
  then show ?case by simp
next
  case (Cons x xs)
  obtain i k where x: "x = (i, k)" by (cases x)
  from Cons.prems show ?case
    unfolding x
    by (auto simp: Let_def split: sum.splits option.splits
        dest!: rotate_orbit_lengths intro!: Cons.IH)
qed

lemma reduce_kpoint_list_sum:
  assumes "reduce_kpoint_list linalg_det SmithNormalForm find_point_group
             kpoint_list lattice_vectors grid_vectors shift0 eps rtol atol =
           Some (Inr (reduced_kpoints, kpoint_weights))"
  shows "sum_list kpoint_weights = length kpoint_list"
proof -
  from assms obtain rl iK sh L D pg st where
    t: "traverse rl iK sh L D eps (1 / 10 ^ 5) pg (enumerate 0 kpoint_list)
          (initial_state (length kpoint_list)) = Inr st"
    and s: "sum_list (take (cOrbit st) (iWt st)) = length kpoint_list"
    and w: "kpoint_weights = iWt st"
    unfolding reduce_kpoint_list_def
    by (auto split: sum.splits if_splits commensurate.splits option.splits prod.splits)
  have "length (iWt st) = cOrbit st"
    by (rule traverse_lengths [OF t]) (simp add: initial_state_def)
  with s w show ?thesis by simp
qed


end
